theory Spec2Isabelle
  imports Main "HOL-Library.Char_ord" "HOL-Library.List_Lexorder"
begin

section \<open>The Python operations the module relies on\<close>

text \<open>
  The module \<^verbatim>\<open>kevm_pyk/solc_to_k.py\<close> turns the JSON artifact of a compiled
  contract into a \<^verbatim>\<open>Contract\<close> object and into K sentences. Its functions are
  embedded here as HOL functions. A Python exception is a value of type \<open>error\<close>, and a
  function that can raise returns \<open>error + 'a\<close> with \<open>Inl\<close> for the exception.
  Strings are \<open>char list\<close>s; the model is about ASCII text, which is what type
  labels, hexadecimal bytecode and source maps consist of.
\<close>

datatype error =
    ValueError string
  | KeyError string
  | TypeError string
  | AttributeError string
  | IndexError

subsection \<open>\<^verbatim>\<open>str.startswith\<close>, \<^verbatim>\<open>str.endswith\<close>, \<^verbatim>\<open>str.split\<close>, \<^verbatim>\<open>str.replace\<close>, \<^verbatim>\<open>str.join\<close>\<close>

definition startswith :: "string \<Rightarrow> string \<Rightarrow> bool" where
  "startswith s p = (take (length p) s = p)"

definition endswith :: "string \<Rightarrow> string \<Rightarrow> bool" where
  "endswith s p = (length p \<le> length s \<and> drop (length s - length p) s = p)"

text \<open>
  \<^verbatim>\<open>s.split(sep)\<close> for a one-character separator: the first segment and the segments
  after it. The result is never empty.
\<close>

fun split_aux :: "char \<Rightarrow> string \<Rightarrow> string \<times> string list" where
  "split_aux sep [] = ([], [])"
| "split_aux sep (c # cs) =
     (case split_aux sep cs of
        (w, ws) \<Rightarrow> if c = sep then ([], w # ws) else (c # w, ws))"

definition split :: "char \<Rightarrow> string \<Rightarrow> string list" where
  "split sep s = (case split_aux sep s of (w, ws) \<Rightarrow> w # ws)"

text \<open>
  \<^verbatim>\<open>s.replace(old, new)\<close> for a non-empty \<open>old\<close>: occurrences are replaced from left
  to right without overlap. (The module calls it with \<^verbatim>\<open>'0x'\<close> and \<^verbatim>\<open>'-'\<close> only.)
\<close>

fun replace :: "string \<Rightarrow> string \<Rightarrow> string \<Rightarrow> string" where
  "replace old new [] = []"
| "replace old new (c # cs) =
     (if old \<noteq> [] \<and> startswith (c # cs) old
      then new @ replace old new (drop (length old - 1) cs)
      else c # replace old new cs)"

fun join :: "string \<Rightarrow> string list \<Rightarrow> string" where
  "join sep [] = []"
| "join sep [x] = x"
| "join sep (x # y # ys) = x @ sep @ join sep (y # ys)"

subsection \<open>\<^verbatim>\<open>int(s)\<close>, \<^verbatim>\<open>int(s, 16)\<close> and \<^verbatim>\<open>str(n)\<close>\<close>

text \<open>
  \<^verbatim>\<open>int\<close> on a string strips white space at both ends (the space and the characters
  0x09 to 0x0D), reads an optional sign, for base 16 an optional \<^verbatim>\<open>0x\<close> prefix (after
  which one underscore may stand), and then digits, where single underscores may stand
  between two digits. Anything else is a \<^verbatim>\<open>ValueError\<close>, whose message shows the first
  200 characters of \<^verbatim>\<open>repr\<close> of the string. (CPython's limit on the number of decimal
  digits, 4300 by default, is not part of the model.)
\<close>

definition is_space :: "char \<Rightarrow> bool" where
  "is_space c = (c \<in> {CHR '' '', CHR 0x09, CHR 0x0A, CHR 0x0B, CHR 0x0C, CHR 0x0D})"

definition strip :: "string \<Rightarrow> string" where
  "strip s = rev (dropWhile is_space (rev (dropWhile is_space s)))"

definition digit_val :: "char \<Rightarrow> nat option" where
  "digit_val c =
     (let n = (of_char c :: nat) in
      if 48 \<le> n \<and> n \<le> 57 then Some (n - 48)
      else if 97 \<le> n \<and> n \<le> 122 then Some (n - 87)
      else if 65 \<le> n \<and> n \<le> 90 then Some (n - 55)
      else None)"

text \<open>
  The digits after sign and prefix: \<open>acc\<close> is the value read so far, \<open>pd\<close> says
  whether the previous character was a digit (only then may an underscore follow, and
  only then may the string end).
\<close>

fun parse_digits :: "nat \<Rightarrow> nat \<Rightarrow> bool \<Rightarrow> string \<Rightarrow> nat option" where
  "parse_digits b acc pd [] = (if pd then Some acc else None)"
| "parse_digits b acc pd (c # cs) =
     (if c = CHR ''_'' then (if pd then parse_digits b acc False cs else None)
      else (case digit_val c of
              None \<Rightarrow> None
            | Some d \<Rightarrow> if d < b then parse_digits b (acc * b + d) True cs else None))"

definition strip_base_prefix :: "nat \<Rightarrow> string \<Rightarrow> string" where
  "strip_base_prefix b s =
     (if b = 16 \<and> (startswith s ''0x'' \<or> startswith s ''0X'')
      then (case drop 2 s of
              c # r \<Rightarrow> if c = CHR ''_'' then r else c # r
            | [] \<Rightarrow> [])
      else s)"

definition py_int_base :: "nat \<Rightarrow> string \<Rightarrow> int option" where
  "py_int_base b s =
     (let t = strip s;
          neg = (t \<noteq> [] \<and> hd t = CHR ''-'');
          u = (if t \<noteq> [] \<and> (hd t = CHR ''-'' \<or> hd t = CHR ''+'') then tl t else t)
      in case parse_digits b 0 False (strip_base_prefix b u) of
           None \<Rightarrow> None
         | Some n \<Rightarrow> Some (if neg then - int n else int n))"

text \<open>
  \<^verbatim>\<open>repr\<close> of an ASCII string: between single quotes, or between double quotes when
  the string has a single quote and no double quote; the quote and the backslash are
  escaped with a backslash, tab, newline and carriage return are written with their
  letter, and the other control characters as \<^verbatim>\<open>\xNN\<close>.
\<close>

definition hex_digit :: "nat \<Rightarrow> char" where
  "hex_digit n = ''0123456789abcdef'' ! (n mod 16)"

definition repr_char :: "char \<Rightarrow> char \<Rightarrow> string" where
  "repr_char q c =
     (let n = (of_char c :: nat) in
      if c = q \<or> c = CHR 0x5C then [CHR 0x5C, c]
      else if c = CHR 0x09 then [CHR 0x5C, CHR ''t'']
      else if c = CHR 0x0A then [CHR 0x5C, CHR ''n'']
      else if c = CHR 0x0D then [CHR 0x5C, CHR ''r'']
      else if n < 32 \<or> n = 127 then [CHR 0x5C, CHR ''x'', hex_digit (n div 16), hex_digit n]
      else [c])"

definition py_repr :: "string \<Rightarrow> string" where
  "py_repr s =
     (let q = (if CHR 0x27 \<in> set s \<and> CHR 0x22 \<notin> set s then CHR 0x22 else CHR 0x27)
      in [q] @ concat (map (repr_char q) s) @ [q])"

definition invalid_literal :: "nat \<Rightarrow> string \<Rightarrow> error" where
  "invalid_literal b s =
     ValueError (''invalid literal for int() with base ''
                 @ (if b = 16 then ''16'' else ''10'') @ '': '' @ take 200 (py_repr s))"

definition py_int :: "string \<Rightarrow> error + int" where
  "py_int s = (case py_int_base 10 s of None \<Rightarrow> Inl (invalid_literal 10 s) | Some n \<Rightarrow> Inr n)"

definition py_int16 :: "string \<Rightarrow> error + int" where
  "py_int16 s = (case py_int_base 16 s of None \<Rightarrow> Inl (invalid_literal 16 s) | Some n \<Rightarrow> Inr n)"

definition digit_char :: "nat \<Rightarrow> char" where
  "digit_char d = char_of (48 + d)"

fun str_nat :: "nat \<Rightarrow> string" where
  "str_nat n = (if n < 10 then [digit_char n] else str_nat (n div 10) @ [digit_char (n mod 10)])"

declare str_nat.simps [simp del]

definition str_int :: "int \<Rightarrow> string" where
  "str_int i = (if i < 0 then CHR ''-'' # str_nat (nat (- i)) else str_nat (nat i))"


subsection \<open>JSON values\<close>

text \<open>
  What \<^verbatim>\<open>json.loads\<close> gives: \<^verbatim>\<open>None\<close>, booleans, integers, strings, lists, and
  dictionaries with string keys, in insertion order (an association list; a lookup finds
  the first pair of a key). Floating-point numbers do not occur in a compiler artifact
  and are left out.
\<close>

datatype json =
    JNull
  | JBool bool
  | JInt int
  | JStr string
  | JArr "json list"
  | JObj "(string \<times> json) list"

text \<open>\<^verbatim>\<open>d[k]\<close> for a string \<open>k\<close>: a \<^verbatim>\<open>KeyError\<close> on a dictionary without the
  key, a \<^verbatim>\<open>TypeError\<close> on anything that is not a dictionary.\<close>

definition getitem :: "json \<Rightarrow> string \<Rightarrow> error + json" where
  "getitem d k =
     (case d of
        JObj kvs \<Rightarrow> (case map_of kvs k of None \<Rightarrow> Inl (KeyError k) | Some v \<Rightarrow> Inr v)
      | _ \<Rightarrow> Inl (TypeError ''indices must be integers or the object is not subscriptable''))"

text \<open>Iteration, as a \<^verbatim>\<open>for\<close> loop or a comprehension does it: over the elements of a
  list, the keys of a dictionary, the characters of a string.\<close>

definition py_iter :: "json \<Rightarrow> error + json list" where
  "py_iter v =
     (case v of
        JArr xs \<Rightarrow> Inr xs
      | JObj kvs \<Rightarrow> Inr (map (\<lambda>kv. JStr (fst kv)) kvs)
      | JStr s \<Rightarrow> Inr (map (\<lambda>c. JStr [c]) s)
      | _ \<Rightarrow> Inl (TypeError ''object is not iterable''))"

text \<open>\<^verbatim>\<open>k in v\<close> for a string \<open>k\<close>: a key of a dictionary, an element of a list, a
  substring of a string.\<close>

definition is_substring :: "string \<Rightarrow> string \<Rightarrow> bool" where
  "is_substring k s = (\<exists>i \<in> set [0 ..< Suc (length s)]. startswith (drop i s) k)"

definition py_contains :: "string \<Rightarrow> json \<Rightarrow> error + bool" where
  "py_contains k v =
     (case v of
        JObj kvs \<Rightarrow> Inr (k \<in> set (map fst kvs))
      | JArr xs \<Rightarrow> Inr (JStr k \<in> set xs)
      | JStr s \<Rightarrow> Inr (is_substring k s)
      | _ \<Rightarrow> Inl (TypeError ''argument is not iterable''))"

text \<open>Running a list of computations in order, up to the first exception.\<close>

fun sequence :: "(error + 'a) list \<Rightarrow> error + 'a list" where
  "sequence [] = Inr []"
| "sequence (r # rs) =
     (case r of
        Inl e \<Rightarrow> Inl e
      | Inr v \<Rightarrow> (case sequence rs of Inl e \<Rightarrow> Inl e | Inr vs \<Rightarrow> Inr (v # vs)))"

definition and_then :: "error + 'a \<Rightarrow> ('a \<Rightarrow> error + 'b) \<Rightarrow> error + 'b" where
  "and_then r f = (case r of Inl e \<Rightarrow> Inl e | Inr v \<Rightarrow> f v)"

text \<open>The values the module reads as strings.\<close>

definition as_str :: "error \<Rightarrow> json \<Rightarrow> error + string" where
  "as_str e v = (case v of JStr s \<Rightarrow> Inr s | _ \<Rightarrow> Inl e)"

lemma getitem_size: "getitem d k = Inr v \<Longrightarrow> size v < size d"
proof (cases d)
  case (JObj kvs)
  assume "getitem d k = Inr v"
  then have "(k, v) \<in> set kvs"
    by (auto simp: getitem_def JObj dest: map_of_SomeD split: option.splits)
  then have "size_prod (\<lambda>x. 0) size (k, v) \<le> size_list (size_prod (\<lambda>x. 0) size) kvs"
    by (rule size_list_estimation') simp
  then show ?thesis by (simp add: JObj)
qed (simp_all add: getitem_def)

lemma py_iter_size: "py_iter v = Inr xs \<Longrightarrow> x \<in> set xs \<Longrightarrow> size x \<le> size v"
proof (cases v)
  case (JArr ys)
  assume "py_iter v = Inr xs" "x \<in> set xs"
  then have "x \<in> set ys" by (simp add: py_iter_def JArr)
  then have "size x \<le> size_list size ys" by (rule size_list_estimation') simp
  then show ?thesis by (simp add: JArr)
qed (auto simp: py_iter_def)

section \<open>K terms and the helpers of \<^verbatim>\<open>KEVM\<close>\<close>

text \<open>
  The terms of \<^verbatim>\<open>pyk.kast.inner\<close> that the module builds. A sort and a label are
  their names. \<^verbatim>\<open>intToken(i)\<close> is the token of sort \<^verbatim>\<open>Int\<close> that holds \<^verbatim>\<open>str(i)\<close>.
\<close>

datatype kinner =
    KVariable string
  | KToken string string
  | KApply string "kinner list"
  | KRewrite kinner kinner

definition intToken :: "int \<Rightarrow> kinner" where
  "intToken i = KToken (str_int i) ''Int''"

definition stringToken :: "string \<Rightarrow> kinner" where
  "stringToken s = KToken (''\"'' @ s @ ''\"'') ''String''"

definition TRUE :: kinner where
  "TRUE = KToken ''true'' ''Bool''"

definition andBool :: "kinner list \<Rightarrow> kinner" where
  "andBool items = foldr (\<lambda>x y. KApply ''_andBool_'' [x, y]) items TRUE"

text \<open>
  Modelled from the spec: the static helpers of class \<^verbatim>\<open>KEVM\<close> live in
  \<^verbatim>\<open>kevm_pyk/kevm.py\<close>, which is not among the sources. Each builds the application
  of one K symbol to its arguments; the symbols are named after the helpers. What the
  range symbols mean is section 4.2 of the specification, see \<open>range_accepts\<close> below.
\<close>

definition range_uint :: "int \<Rightarrow> kinner \<Rightarrow> kinner" where
  "range_uint width i = KApply ''#rangeUInt'' [intToken width, i]"

definition range_sint :: "int \<Rightarrow> kinner \<Rightarrow> kinner" where
  "range_sint width i = KApply ''#rangeSInt'' [intToken width, i]"

definition range_address :: "kinner \<Rightarrow> kinner" where
  "range_address i = KApply ''#rangeAddress'' [i]"

definition range_bool :: "kinner \<Rightarrow> kinner" where
  "range_bool i = KApply ''#rangeBool'' [i]"

definition range_bytes :: "kinner \<Rightarrow> kinner \<Rightarrow> kinner" where
  "range_bytes width ba = KApply ''#rangeBytes'' [width, ba]"

definition size_bytes :: "kinner \<Rightarrow> kinner" where
  "size_bytes ba = KApply ''lengthBytes'' [ba]"

definition abi_type :: "string \<Rightarrow> kinner \<Rightarrow> kinner" where
  "abi_type ty v = KApply (''abi_type_'' @ ty) [v]"


definition abi_calldata :: "string \<Rightarrow> kinner list \<Rightarrow> kinner" where
  "abi_calldata nm args = KApply ''#abiCallData'' [stringToken nm, KApply ''typedArgs'' args]"




text \<open>
  Modelled from the spec (section 4.2): which integers a range constraint over one
  variable accepts. \<^verbatim>\<open>uintN\<close>: the unsigned values in \<open>[0, 2^N - 1]\<close>; \<^verbatim>\<open>int256\<close>,
  as \<^verbatim>\<open>range_sint\<close> of 256: the signed values in \<open>[-2^255, 2^255 - 1]\<close>; an address:
  the unsigned values of 160 bits; a boolean: 0 and 1. The width is read back from its
  token. Other terms are not range constraints on an integer: \<open>None\<close>.
\<close>

definition token_int :: "kinner \<Rightarrow> int option" where
  "token_int t =
     (case t of
        KToken s srt \<Rightarrow> (if srt = ''Int'' then py_int_base 10 s else None)
      | _ \<Rightarrow> None)"

definition range_accepts :: "kinner \<Rightarrow> int \<Rightarrow> bool option" where
  "range_accepts p x =
     (case p of
        KApply l args \<Rightarrow>
          (if l = ''#rangeUInt'' \<and> length args = 2 then
             (case token_int (hd args) of
                Some w \<Rightarrow> Some (0 \<le> x \<and> x \<le> 2 ^ nat w - 1)
              | None \<Rightarrow> None)
           else if l = ''#rangeSInt'' \<and> length args = 2 then
             (case token_int (hd args) of
                Some w \<Rightarrow> Some (- (2 ^ (nat w - 1)) \<le> x \<and> x \<le> 2 ^ (nat w - 1) - 1)
              | None \<Rightarrow> None)
           else if l = ''#rangeAddress'' \<and> length args = 1 then Some (0 \<le> x \<and> x \<le> 2 ^ 160 - 1)
           else if l = ''#rangeBool'' \<and> length args = 1 then Some (x = 0 \<or> x = 1)
           else None)
      | _ \<Rightarrow> None)"

section \<open>The ABI type classifier and the range predicates\<close>

text \<open>
  \<^verbatim>\<open>_evm_base_sort_int\<close>: the four checks run one after the other on the flag
  \<^verbatim>\<open>success\<close>; a width outside the supported ones raises \<^verbatim>\<open>ValueError\<close>, and so
  does \<^verbatim>\<open>int\<close> on a suffix that is not a number.
\<close>

definition unsupported_sort :: "string \<Rightarrow> error" where
  "unsupported_sort type_label = ValueError (''Unsupported evm base sort type: '' @ type_label)"

definition check_bytes :: "string \<Rightarrow> bool \<Rightarrow> error + bool" where
  "check_bytes type_label success =
     (if startswith type_label ''bytes'' \<and> length type_label > 5 \<and> \<not> endswith type_label '']''
      then (case py_int (drop 5 type_label) of
              Inl e \<Rightarrow> Inl e
            | Inr width \<Rightarrow>
                if \<not> (width = 4 \<or> width = 32) then Inl (unsupported_sort type_label)
                else Inr True)
      else Inr success)"

definition check_ints :: "string \<Rightarrow> bool \<Rightarrow> error + bool" where
  "check_ints type_label success =
     (if startswith type_label ''int'' \<and> \<not> endswith type_label '']''
      then (case py_int (drop 3 type_label) of
              Inl e \<Rightarrow> Inl e
            | Inr width \<Rightarrow>
                if \<not> width = 256 then Inl (unsupported_sort type_label)
                else Inr True)
      else Inr success)"

definition check_uints :: "string \<Rightarrow> bool \<Rightarrow> error + bool" where
  "check_uints type_label success =
     (if startswith type_label ''uint'' \<and> \<not> endswith type_label '']''
      then (case py_int (drop 4 type_label) of
              Inl e \<Rightarrow> Inl e
            | Inr width \<Rightarrow>
                if \<not> (0 < width \<and> width \<le> 256 \<and> width mod 8 = 0)
                then Inl (unsupported_sort type_label)
                else Inr True)
      else Inr success)"

definition evm_base_sort_int :: "string \<Rightarrow> error + bool" where
  "evm_base_sort_int type_label =
     (case check_bytes type_label (type_label = ''address'' \<or> type_label = ''bool'') of
        Inl e \<Rightarrow> Inl e
      | Inr s1 \<Rightarrow>
          (case check_ints type_label s1 of
             Inl e \<Rightarrow> Inl e
           | Inr s2 \<Rightarrow> check_uints type_label s2))"

text \<open>\<^verbatim>\<open>_evm_base_sort\<close> returns a \<^verbatim>\<open>KSort\<close>, here its name.\<close>

definition evm_base_sort :: "string \<Rightarrow> error + string" where
  "evm_base_sort type_label =
     (case evm_base_sort_int type_label of
        Inl e \<Rightarrow> Inl e
      | Inr is_int \<Rightarrow>
          if is_int then Inr ''Int''
          else if type_label = ''bytes'' then Inr ''Bytes''
          else if type_label = ''string'' then Inr ''String''
          else Inr ''K'')"

definition range_predicate_uint :: "kinner \<Rightarrow> string \<Rightarrow> error + (bool \<times> kinner option)" where
  "range_predicate_uint term type_label =
     (if startswith type_label ''uint'' \<and> \<not> endswith type_label '']''
      then (case py_int (drop 4 type_label) of
              Inl e \<Rightarrow> Inl e
            | Inr width \<Rightarrow>
                if \<not> (0 < width \<and> width \<le> 256 \<and> width mod 8 = 0)
                then Inl (ValueError (''Unsupported range predicate type: '' @ type_label))
                else Inr (True, Some (range_uint width term)))
      else Inr (False, None))"

definition range_predicate :: "kinner \<Rightarrow> string \<Rightarrow> error + kinner option" where
  "range_predicate term type_label =
     (case range_predicate_uint term type_label of
        Inl e \<Rightarrow> Inl e
      | Inr (success, result) \<Rightarrow>
          if success then Inr result
          else if type_label = ''address'' then Inr (Some (range_address term))
          else if type_label = ''bool'' then Inr (Some (range_bool term))
          else if type_label = ''bytes4'' then Inr (Some (range_bytes (intToken 4) term))
          else if type_label = ''bytes32'' \<or> type_label = ''uint256''
            then Inr (Some (range_uint 256 term))
          else if type_label = ''int256'' then Inr (Some (range_sint 256 term))
          else if type_label = ''bytes'' then Inr (Some (range_uint 128 (size_bytes term)))
          else if type_label = ''string'' then Inr (Some TRUE)
          else Inr None)"


section \<open>Facts about the Python operations\<close>

text \<open>\<^verbatim>\<open>int(str(n)) == n\<close>: reading back a printed number.\<close>

definition is_dec :: "char \<Rightarrow> bool" where
  "is_dec c = (\<exists>d<10. c = digit_char d)"

lemma of_char_digit_char: "d < 10 \<Longrightarrow> (of_char (digit_char d) :: nat) = 48 + d"
  by (simp add: digit_char_def)

lemma digit_val_digit_char: "d < 10 \<Longrightarrow> digit_val (digit_char d) = Some d"
  by (simp add: digit_val_def of_char_digit_char Let_def)

lemma digit_char_neq:
  assumes "d < 10" and "(of_char c :: nat) < 48 \<or> 57 < (of_char c :: nat)"
  shows "digit_char d \<noteq> c"
proof
  assume "digit_char d = c"
  then have "(of_char c :: nat) = 48 + d" using of_char_digit_char[OF assms(1)] by simp
  with assms show False by auto
qed

lemma digit_char_not_space: "d < 10 \<Longrightarrow> \<not> is_space (digit_char d)"
  unfolding is_space_def by (auto dest!: digit_char_neq[THEN notE, rotated -1])

lemma parse_digits_decimal:
  "\<forall>c\<in>set s. is_dec c \<Longrightarrow>
   parse_digits 10 acc pd (s @ t)
     = parse_digits 10 (foldl (\<lambda>a c. a * 10 + (of_char c - 48)) acc s) (pd \<or> s \<noteq> []) t"
proof (induction s arbitrary: acc pd)
  case Nil
  then show ?case by simp
next
  case (Cons c s)
  then obtain d where d: "d < 10" "c = digit_char d" by (auto simp: is_dec_def)
  have v: "(of_char c :: nat) - 48 = d" using d by (simp add: of_char_digit_char)
  have u: "c \<noteq> CHR ''_''" unfolding d(2) by (rule digit_char_neq[OF d(1)]) simp
  have s: "\<forall>c\<in>set s. is_dec c" using Cons.prems by simp
  show ?case using Cons.IH[OF s] d(1) u v digit_val_digit_char[OF d(1)] d(2)
    by simp
qed

lemma str_nat_small: "n < 10 \<Longrightarrow> str_nat n = [digit_char n]"
  by (subst str_nat.simps) simp

lemma str_nat_big: "\<not> n < 10 \<Longrightarrow> str_nat n = str_nat (n div 10) @ [digit_char (n mod 10)]"
  by (subst str_nat.simps) simp

lemma str_nat_dec: "\<forall>c\<in>set (str_nat n). is_dec c"
proof (induction n rule: str_nat.induct)
  case (1 n)
  show ?case
  proof (cases "n < 10")
    case True
    then show ?thesis by (auto simp: str_nat_small is_dec_def)
  next
    case False
    have "n mod 10 < 10" by simp
    then have "is_dec (digit_char (n mod 10))" unfolding is_dec_def by blast
    with False 1 show ?thesis by (simp add: str_nat_big)
  qed
qed

lemma str_nat_nonempty: "str_nat n \<noteq> []"
  by (cases "n < 10") (simp_all add: str_nat_small str_nat_big)

lemma str_nat_value:
  "foldl (\<lambda>a c. a * 10 + (of_char c - 48)) acc (str_nat n) = acc * 10 ^ length (str_nat n) + n"
proof (induction n arbitrary: acc rule: str_nat.induct)
  case (1 n)
  show ?case
  proof (cases "n < 10")
    case True
    then show ?thesis by (simp add: str_nat_small of_char_digit_char)
  next
    case False
    have m: "n mod 10 < 10" by simp
    show ?thesis using 1[OF False] m
      by (simp add: str_nat_big[OF False] of_char_digit_char algebra_simps)
  qed
qed

lemma parse_digits_str_nat: "parse_digits 10 0 False (str_nat n) = Some n"
  using parse_digits_decimal[OF str_nat_dec, where t = "[]" and acc = 0 and pd = False and n1 = n]
  by (simp add: str_nat_value str_nat_nonempty)

lemma str_nat_hd: "is_dec (hd (str_nat n))"
  using str_nat_dec[of n] str_nat_nonempty[of n] by (cases "str_nat n") auto

lemma str_nat_last: "is_dec (last (str_nat n))"
  using str_nat_dec[of n] str_nat_nonempty[of n] last_in_set by blast

lemma dropWhile_hd_id: "xs \<noteq> [] \<Longrightarrow> \<not> P (hd xs) \<Longrightarrow> dropWhile P xs = xs"
  by (cases xs) simp_all

lemma strip_id: "s \<noteq> [] \<Longrightarrow> \<not> is_space (hd s) \<Longrightarrow> \<not> is_space (last s) \<Longrightarrow> strip s = s"
proof -
  assume a: "s \<noteq> []" "\<not> is_space (hd s)" "\<not> is_space (last s)"
  have 1: "dropWhile is_space s = s" using a by (cases s) simp_all
  have h: "hd (rev s) = last s" using a by (simp add: hd_rev)
  have n: "rev s \<noteq> []" using a by simp
  have 2: "dropWhile is_space (rev s) = rev s"
    by (rule dropWhile_hd_id) (simp_all add: a h)
  show ?thesis by (simp add: strip_def 1 2)
qed

lemma py_int_base_str_nat: "py_int_base 10 (str_nat n) = Some (int n)"
proof -
  obtain d where d: "d < 10" "hd (str_nat n) = digit_char d"
    using str_nat_hd[of n] by (auto simp: is_dec_def)
  obtain e where e: "e < 10" "last (str_nat n) = digit_char e"
    using str_nat_last[of n] by (auto simp: is_dec_def)
  have st: "strip (str_nat n) = str_nat n"
    by (rule strip_id) (simp_all add: str_nat_nonempty d e digit_char_not_space)
  have m: "hd (str_nat n) \<noteq> CHR ''-''" unfolding d(2) by (rule digit_char_neq[OF d(1)]) simp
  have p: "hd (str_nat n) \<noteq> CHR ''+''" unfolding d(2) by (rule digit_char_neq[OF d(1)]) simp
  show ?thesis
    by (simp add: py_int_base_def st m p strip_base_prefix_def parse_digits_str_nat)
qed

lemma py_int_str_nat: "py_int (str_nat n) = Inr (int n)"
  by (simp add: py_int_def py_int_base_str_nat)

lemma str_nat_not_endswith_bracket: "\<not> endswith (p @ str_nat n) '']''"
proof -
  obtain e where e: "e < 10" "last (str_nat n) = digit_char e"
    using str_nat_last[of n] by (auto simp: is_dec_def)
  have l: "last (p @ str_nat n) \<noteq> CHR '']''"
    using str_nat_nonempty[of n] e digit_char_neq[OF e(1), of "CHR '']''"] by simp
  show ?thesis
  proof
    assume "endswith (p @ str_nat n) '']''"
    then have "drop (length (p @ str_nat n) - 1) (p @ str_nat n) = '']''"
      by (simp add: endswith_def)
    then have "last (p @ str_nat n) = CHR '']''"
      by (metis last_drop last.simps length_greater_0_conv list.distinct(1) diff_less 
          drop_eq_Nil linorder_not_less zero_less_one)
    with l show False by simp
  qed
qed

lemma py_int_base_str_int: "0 \<le> i \<Longrightarrow> py_int_base 10 (str_int i) = Some i"
  by (simp add: str_int_def py_int_base_str_nat)

lemma token_int_intToken: "0 \<le> i \<Longrightarrow> token_int (intToken i) = Some i"
  by (simp add: token_int_def intToken_def py_int_base_str_int)

lemma py_int_base_str_int_all: "py_int_base 10 (str_int i) = Some i"
proof (cases "i < 0")
  case False
  then show ?thesis by (simp add: py_int_base_str_int)
next
  case True
  let ?n = "nat (- i)"
  obtain d where d: "d < 10" "hd (str_nat ?n) = digit_char d"
    using str_nat_hd[of ?n] by (auto simp: is_dec_def)
  obtain e where e: "e < 10" "last (str_nat ?n) = digit_char e"
    using str_nat_last[of ?n] by (auto simp: is_dec_def)
  have sp: "\<not> is_space CHR ''-''" by (simp add: is_space_def)
  have st: "strip (CHR ''-'' # str_nat ?n) = CHR ''-'' # str_nat ?n"
    by (rule strip_id) (simp_all add: sp str_nat_nonempty e digit_char_not_space)
  show ?thesis
    using True
    by (simp add: str_int_def py_int_base_def st strip_base_prefix_def parse_digits_str_nat)
qed

lemma py_int_str_int: "py_int (str_int i) = Inr i"
  by (simp add: py_int_def py_int_base_str_int_all)

lemma endswith_bracket_neq: "endswith s '']'' \<Longrightarrow> \<not> endswith t '']'' \<Longrightarrow> s \<noteq> t"
  by auto

section \<open>Array types are never rejected\<close>

text \<open>
  Claim C10. For every type label that ends in \<^verbatim>\<open>]\<close> (an array type), whatever stands
  before the bracket: \<^verbatim>\<open>_evm_base_sort_int\<close> returns \<^verbatim>\<open>False\<close> without raising,
  \<^verbatim>\<open>_evm_base_sort\<close> returns the catch-all sort \<^verbatim>\<open>K\<close>, \<^verbatim>\<open>_range_predicate_uint\<close>
  returns \<^verbatim>\<open>(False, None)\<close> and \<^verbatim>\<open>_range_predicate\<close> returns \<^verbatim>\<open>None\<close>, no predicate
  and no error.
\<close>

theorem array_type_never_rejected:
  assumes "endswith type_label '']''"
  shows "evm_base_sort_int type_label = Inr False
       \<and> evm_base_sort type_label = Inr ''K''
       \<and> range_predicate_uint term type_label = Inr (False, None)
       \<and> range_predicate term type_label = Inr None"
proof -
  have ne: "type_label \<noteq> ''address''" "type_label \<noteq> ''bool''" "type_label \<noteq> ''bytes''"
    "type_label \<noteq> ''string''" "type_label \<noteq> ''bytes4''" "type_label \<noteq> ''bytes32''"
    "type_label \<noteq> ''uint256''" "type_label \<noteq> ''int256''"
    by (rule endswith_bracket_neq[OF assms], simp add: endswith_def)+
  have 1: "evm_base_sort_int type_label = Inr False"
    using assms ne by (simp add: evm_base_sort_int_def check_bytes_def check_ints_def check_uints_def)
  have 2: "range_predicate_uint term type_label = Inr (False, None)"
    using assms by (simp add: range_predicate_uint_def)
  show ?thesis
    using ne by (simp add: 1 2 evm_base_sort_def range_predicate_def)
qed

theorem array_type_never_rejected_witness:
  "evm_base_sort_int ''uint7[]'' = Inr False
   \<and> evm_base_sort ''bytes5[]'' = Inr ''K''
   \<and> range_predicate_uint (KVariable ''V0_x'') ''uint7[]'' = Inr (False, None)
   \<and> range_predicate (KVariable ''V0_x'') ''bytes5[]'' = Inr None"
proof -
  have a: "endswith ''uint7[]'' '']''" by (simp add: endswith_def)
  have b: "endswith ''bytes5[]'' '']''" by (simp add: endswith_def)
  show ?thesis
    using array_type_never_rejected[OF a, of "KVariable ''V0_x''"]
          array_type_never_rejected[OF b, of "KVariable ''V0_x''"]
    by simp
qed

section \<open>The range predicate of \<^verbatim>\<open>uintN\<close>\<close>

text \<open>
  Claim C2. For every width \<open>N\<close> with \<open>0 < N \<le> 256\<close> and \<open>N mod 8 = 0\<close>, the type label
  \<^verbatim>\<open>uintN\<close> (the letters \<^verbatim>\<open>uint\<close> and then \<^verbatim>\<open>str(N)\<close>) gets the predicate
  \<^verbatim>\<open>KEVM.range_uint(N, term)\<close>, from \<^verbatim>\<open>_range_predicate_uint\<close> with the success flag
  and from \<^verbatim>\<open>_range_predicate\<close>. Read as section 4.2 of the specification reads it, this
  predicate accepts exactly the integers of \<open>[0, 2^N - 1]\<close>: it accepts \<open>0\<close> and
  \<open>2^N - 1\<close>, and rejects \<open>2^N\<close> and \<open>-1\<close>.
\<close>

theorem uint_range_predicate:
  assumes "0 < N" and "N \<le> 256" and "N mod 8 = 0"
  shows "range_predicate_uint term (''uint'' @ str_nat N) = Inr (True, Some (range_uint (int N) term))
       \<and> range_predicate term (''uint'' @ str_nat N) = Inr (Some (range_uint (int N) term))
       \<and> (\<forall>x. range_accepts (range_uint (int N) term) x = Some (0 \<le> x \<and> x \<le> 2 ^ N - 1))
       \<and> range_accepts (range_uint (int N) term) 0 = Some True
       \<and> range_accepts (range_uint (int N) term) (2 ^ N - 1) = Some True
       \<and> range_accepts (range_uint (int N) term) (2 ^ N) = Some False
       \<and> range_accepts (range_uint (int N) term) (- 1) = Some False"
proof -
  have w: "0 < int N \<and> int N \<le> 256 \<and> int N mod 8 = 0"
    using assms by presburger
  have 1: "range_predicate_uint term (''uint'' @ str_nat N)
             = Inr (True, Some (range_uint (int N) term))"
    using w str_nat_not_endswith_bracket[of "''uint''" N]
    by (simp add: range_predicate_uint_def startswith_def py_int_str_nat)
  have 2: "\<And>x. range_accepts (range_uint (int N) term) x = Some (0 \<le> x \<and> x \<le> 2 ^ N - 1)"
    by (simp add: range_accepts_def range_uint_def token_int_intToken)
  have 3: "range_predicate term (''uint'' @ str_nat N) = Inr (Some (range_uint (int N) term))"
    unfolding range_predicate_def 1 by simp
  show ?thesis
    by (intro conjI allI 1 2 3) (simp_all add: 2)
qed

theorem uint_range_predicate_witness:
  "range_predicate_uint (KVariable ''V0_x'') ''uint8'' = Inr (True, Some (range_uint 8 (KVariable ''V0_x'')))
   \<and> range_predicate (KVariable ''V0_x'') ''uint8'' = Inr (Some (range_uint 8 (KVariable ''V0_x'')))
   \<and> range_accepts (range_uint 8 (KVariable ''V0_x'')) 0 = Some True
   \<and> range_accepts (range_uint 8 (KVariable ''V0_x'')) 255 = Some True
   \<and> range_accepts (range_uint 8 (KVariable ''V0_x'')) 256 = Some False
   \<and> range_accepts (range_uint 8 (KVariable ''V0_x'')) (- 1) = Some False"
proof -
  have s: "str_nat 8 = ''8''" by code_simp
  have h: "(0::nat) < 8" "(8::nat) \<le> 256" "(8::nat) mod 8 = 0" by simp_all
  show ?thesis
    using uint_range_predicate[OF h, of "KVariable ''V0_x''"] by (simp add: s)
qed


section \<open>The method signature\<close>

text \<open>
  \<^verbatim>\<open>re.match(r'.+\[.*\]', base_type)\<close>: the pattern matches a prefix of the string, and
  a dot is any character but a newline. So it matches exactly when, before the first
  newline, an opening bracket stands at an index of at least 1 and a closing bracket
  somewhere after it.
\<close>

definition re_match_array :: "string \<Rightarrow> bool" where
  "re_match_array s =
     (let line = takeWhile (\<lambda>c. c \<noteq> CHR 0x0A) s;
          rest = dropWhile (\<lambda>c. c \<noteq> CHR ''['') (tl line)
      in rest \<noteq> [] \<and> CHR '']'' \<in> set (tl rest))"

text \<open>
  The first block of \<^verbatim>\<open>unparse_input\<close>: \<^verbatim>\<open>(is_array, is_sized, array_size, base_type)\<close>
  of a type string. The size is what stands between the first opening bracket and the
  character before the next one (or the end), read by \<^verbatim>\<open>int\<close>.
\<close>

definition array_suffix :: "string \<Rightarrow> error + (bool \<times> bool \<times> int \<times> string)" where
  "array_suffix base_type =
     (if re_match_array base_type then
        (case split CHR ''['' base_type of
           b # p # _ \<Rightarrow>
             (let array_size_str = butlast p in
              if array_size_str \<noteq> [] then
                (case py_int array_size_str of
                   Inl e \<Rightarrow> Inl e
                 | Inr array_size \<Rightarrow> Inr (True, True, array_size, b))
              else Inr (True, False, 0, b))
         | _ \<Rightarrow> Inl IndexError)
      else Inr (False, False, 0, base_type))"

function unparse_input :: "json \<Rightarrow> error + string" where
  "unparse_input input_json =
     (case getitem input_json ''type'' of
        Inl e \<Rightarrow> Inl e
      | Inr ty \<Rightarrow>
         (case as_str (TypeError ''expected string or bytes-like object'') ty of
            Inl e \<Rightarrow> Inl e
          | Inr type_str \<Rightarrow>
             (case array_suffix type_str of
                Inl e \<Rightarrow> Inl e
              | Inr (is_array, is_sized, array_size, base_type) \<Rightarrow>
                  if base_type = ''tuple'' then
                    (case getitem input_json ''components'' of
                       Inl e \<Rightarrow> Inl e
                     | Inr comps \<Rightarrow>
                        (case py_iter comps of
                           Inl e \<Rightarrow> Inl e
                         | Inr cs \<Rightarrow>
                            (case sequence (map unparse_input cs) of
                               Inl e \<Rightarrow> Inl e
                             | Inr parts \<Rightarrow>
                                 Inr (''('' @ join '','' parts @ '')''
                                      @ (if is_array \<and> \<not> is_sized then ''[]''
                                         else if is_array \<and> is_sized
                                           then ''['' @ str_int array_size @ '']''
                                         else [])))))
                  else Inr type_str)))"
  by pat_completeness auto
termination
proof (relation "measure size")
  show "wf (measure size)" by simp
next
  fix input_json comps :: json and cs :: "json list" and x :: json
  assume "getitem input_json ''components'' = Inr comps" "py_iter comps = Inr cs" "x \<in> set cs"
  then show "(x, input_json) \<in> measure size"
    using getitem_size[of input_json "''components''" comps] py_iter_size[of comps cs x] by simp
qed

declare unparse_input.simps [simp del]

text \<open>\<^verbatim>\<open>method_sig_from_abi\<close>. The method name is formatted into the signature; the
  model asks for a string there, as the ABI has it.\<close>

definition method_sig_from_abi :: "json \<Rightarrow> error + string" where
  "method_sig_from_abi method_json =
     and_then (getitem method_json ''name'') (\<lambda>method_name.
     and_then (getitem method_json ''inputs'') (\<lambda>inputs.
     and_then (py_iter inputs) (\<lambda>ins.
     and_then (sequence (map unparse_input ins)) (\<lambda>parts.
     and_then (as_str (TypeError ''method name is not a string'') method_name) (\<lambda>nm.
       Inr (nm @ ''('' @ join '','' parts @ '')''))))))"


section \<open>The contract model\<close>

text \<open>
  \<^verbatim>\<open>Contract.Method\<close> (the record \<open>Method\<close>) and \<^verbatim>\<open>Contract\<close>. The fields \<^verbatim>\<open>name\<close>, \<^verbatim>\<open>id\<close> and
  \<^verbatim>\<open>sort\<close> of a method are \<open>m_name\<close>, \<open>m_id\<close> and \<open>m_sort\<close> here, the field
  \<^verbatim>\<open>name\<close> of a contract is \<open>c_name\<close>, its dictionary \<^verbatim>\<open>fields\<close> is \<open>c_fields\<close>,
  an association list from keys to slots with distinct keys, in insertion order. \<^verbatim>\<open>raw_sourcemap\<close> is the JSON value of
  the artifact, \<open>JNull\<close> for \<^verbatim>\<open>None\<close>.
\<close>

text \<open>
  The keys of the dictionary \<^verbatim>\<open>fields\<close>: the JSON values that can be hashed. Two keys
  are the same key when they are equal in Python, where \<^verbatim>\<open>True == 1\<close> and
  \<^verbatim>\<open>False == 0\<close>; \<open>key_norm\<close> gives equal keys the same value. \<open>key_str\<close> is the key
  formatted into a string.
\<close>

datatype pykey = KeyNone | KeyBool bool | KeyInt int | KeyStr string

definition as_key :: "json \<Rightarrow> error + pykey" where
  "as_key v =
     (case v of
        JNull \<Rightarrow> Inr KeyNone
      | JBool b \<Rightarrow> Inr (KeyBool b)
      | JInt i \<Rightarrow> Inr (KeyInt i)
      | JStr s \<Rightarrow> Inr (KeyStr s)
      | JArr xs \<Rightarrow> Inl (TypeError (''unhashable type: '' @ py_repr ''list''))
      | JObj kvs \<Rightarrow> Inl (TypeError (''unhashable type: '' @ py_repr ''dict'')))"

definition key_norm :: "pykey \<Rightarrow> pykey" where
  "key_norm k = (case k of KeyBool b \<Rightarrow> KeyInt (if b then 1 else 0) | _ \<Rightarrow> k)"

definition key_str :: "pykey \<Rightarrow> string" where
  "key_str k =
     (case k of
        KeyNone \<Rightarrow> ''None''
      | KeyBool b \<Rightarrow> (if b then ''True'' else ''False'')
      | KeyInt i \<Rightarrow> str_int i
      | KeyStr s \<Rightarrow> s)"

record Method =
  m_name :: string
  m_id :: int
  m_sort :: string
  arg_names :: "string list"
  arg_types :: "string list"
  contract_name :: string
  payable :: bool
  signature :: string

record contract =
  c_name :: string
  contract_json :: json
  contract_id :: json
  contract_path :: json
  bytecode :: string
  raw_sourcemap :: json
  methods :: "Method list"
  c_fields :: "(pykey \<times> int) list"

text \<open>\<^verbatim>\<open>str.upper\<close> on ASCII text.\<close>

definition upper_char :: "char \<Rightarrow> char" where
  "upper_char c =
     (let n = (of_char c :: nat) in if 97 \<le> n \<and> n \<le> 122 then char_of (n - 32) else c)"

definition name_upper_of :: "string \<Rightarrow> string" where
  "name_upper_of nm = map upper_char (take 1 nm) @ drop 1 nm"

definition sort_method_of :: "string \<Rightarrow> string" where
  "sort_method_of nm = name_upper_of nm @ ''Method''"

text \<open>
  \<^verbatim>\<open>Contract.Method.__init__\<close>. The argument names are \<^verbatim>\<open>V{i}_{name}\<close> with every
  \<^verbatim>\<open>-\<close> of the declared name replaced by \<^verbatim>\<open>_\<close>. The model asks for strings as method
  name and argument types, as the ABI has them.
\<close>

definition arg_name_of :: "nat \<times> json \<Rightarrow> error + string" where
  "arg_name_of p =
     (case p of (i, input) \<Rightarrow>
        and_then (getitem input ''name'') (\<lambda>n.
        and_then (as_str (AttributeError ''replace'') n) (\<lambda>nm.
          Inr (''V'' @ str_nat i @ ''_'' @ replace ''-'' ''_'' nm))))"

definition arg_type_of :: "json \<Rightarrow> error + string" where
  "arg_type_of input =
     and_then (getitem input ''type'') (as_str (TypeError ''argument type is not a string''))"

definition method_init :: "string \<Rightarrow> int \<Rightarrow> json \<Rightarrow> string \<Rightarrow> string \<Rightarrow> error + Method" where
  "method_init msig mid abi cname srt =
     and_then (getitem abi ''name'') (\<lambda>n.
     and_then (as_str (TypeError ''method name is not a string'') n) (\<lambda>nm.
     and_then (getitem abi ''inputs'') (\<lambda>inputs.
     and_then (py_iter inputs) (\<lambda>ins.
     and_then (sequence (map arg_name_of (enumerate 0 ins))) (\<lambda>anames.
     and_then (sequence (map arg_type_of ins)) (\<lambda>atypes.
     and_then (getitem abi ''stateMutability'') (\<lambda>mut.
       Inr \<lparr> m_name = nm, m_id = mid, m_sort = srt, arg_names = anames, arg_types = atypes,
             contract_name = cname, payable = (mut = JStr ''payable''), signature = msig \<rparr>)))))))"

text \<open>
  One round of the loop over \<^verbatim>\<open>contract_json['abi']\<close>: \<open>None\<close> for an entry that is
  not a function, the method otherwise. The selector is
  \<^verbatim>\<open>int(evm['methodIdentifiers'][msig], 16)\<close>.
\<close>

definition abi_entry :: "string \<Rightarrow> json \<Rightarrow> json \<Rightarrow> error + Method option" where
  "abi_entry cname evm entry =
     and_then (getitem entry ''type'') (\<lambda>ty.
       if ty \<noteq> JStr ''function'' then Inr None
       else
         and_then (method_sig_from_abi entry) (\<lambda>msig.
         and_then (getitem evm ''methodIdentifiers'') (\<lambda>ids.
         and_then (getitem ids msig) (\<lambda>sel.
         and_then (as_str (TypeError ''int() cannot convert non-string with explicit base'') sel) (\<lambda>hex.
         and_then (py_int16 hex) (\<lambda>mid.
         and_then (method_init msig mid entry cname (sort_method_of cname)) (\<lambda>m.
           Inr (Some m))))))))"

fun abi_loop :: "string \<Rightarrow> json \<Rightarrow> json list \<Rightarrow> Method list \<Rightarrow> error + Method list" where
  "abi_loop cname evm [] ms = Inr ms"
| "abi_loop cname evm (entry # rest) ms =
     (case abi_entry cname evm entry of
        Inl e \<Rightarrow> Inl e
      | Inr None \<Rightarrow> abi_loop cname evm rest ms
      | Inr (Some m) \<Rightarrow> abi_loop cname evm rest (ms @ [m]))"

text \<open>
  The storage fields. \<^verbatim>\<open>int(_f['slot'])\<close> takes a string, an integer or a boolean.
  The label is whatever the entry has; it becomes a key of the dictionary \<^verbatim>\<open>_fields\<close>
  in the loop, where a list or a dictionary raises \<^verbatim>\<open>TypeError\<close> (it cannot be
  hashed). \<open>dict_set\<close> is the assignment \<^verbatim>\<open>d[k] = v\<close>.
\<close>

definition slot_int :: "json \<Rightarrow> error + int" where
  "slot_int v =
     (case v of
        JStr s \<Rightarrow> py_int s
      | JInt i \<Rightarrow> Inr i
      | JBool b \<Rightarrow> Inr (if b then 1 else 0)
      | _ \<Rightarrow> Inl (TypeError ''int() argument must be a string or a number''))"

definition field_entry :: "json \<Rightarrow> error + (json \<times> int)" where
  "field_entry f =
     and_then (getitem f ''label'') (\<lambda>label.
     and_then (getitem f ''slot'') (\<lambda>sv.
     and_then (slot_int sv) (\<lambda>slot.
       Inr (label, slot))))"

fun dict_set :: "(pykey \<times> 'v) list \<Rightarrow> pykey \<Rightarrow> 'v \<Rightarrow> (pykey \<times> 'v) list" where
  "dict_set [] k v = [(k, v)]"
| "dict_set ((k', v') # d) k v =
     (if key_norm k' = key_norm k then (k', v) # d else (k', v') # dict_set d k v)"

text \<open>
  The loop over \<^verbatim>\<open>_fields_list\<close>, on the dictionary and the log: a label that is
  already a key is reported and skipped.
\<close>

definition duplicate_message :: "string \<Rightarrow> string \<Rightarrow> string" where
  "duplicate_message cname l =
     ''Found duplicate field access key on contract '' @ cname @ '': '' @ l"

fun fields_loop ::
  "string \<Rightarrow> (json \<times> int) list \<Rightarrow> (pykey \<times> int) list \<times> string list
     \<Rightarrow> error + ((pykey \<times> int) list \<times> string list)" where
  "fields_loop cname [] st = Inr st"
| "fields_loop cname ((l, s) # rest) (flds, log) =
     (case as_key l of
        Inl e \<Rightarrow> Inl e
      | Inr k \<Rightarrow>
          if key_norm k \<in> set (map (\<lambda>kv. key_norm (fst kv)) flds)
          then fields_loop cname rest (flds, log @ [duplicate_message cname (key_str k)])
          else fields_loop cname rest (dict_set flds k s, log))"

definition storage_fields :: "string \<Rightarrow> json \<Rightarrow> error + ((pykey \<times> int) list \<times> string list)" where
  "storage_fields cname cjson =
     and_then (py_contains ''storageLayout'' cjson) (\<lambda>has_layout.
       if \<not> has_layout then Inr ([], [])
       else
         and_then (getitem cjson ''storageLayout'') (\<lambda>layout.
         and_then (py_contains ''storage'' layout) (\<lambda>has_storage.
           if \<not> has_storage then Inr ([], [])
           else
             and_then (getitem layout ''storage'') (\<lambda>storage.
             and_then (py_iter storage) (\<lambda>fs.
             and_then (sequence (map field_entry fs)) (\<lambda>fields_list.
               fields_loop cname fields_list ([], [])))))))"

text \<open>
  \<^verbatim>\<open>Contract.__init__\<close>. \<open>contract_head\<close> is the function up to the statement
  \<^verbatim>\<open>self.fields = FrozenDict({})\<close>: the object with its methods, sorted by signature
  (a stable sort, strings compared character by character), and no fields yet.
  \<open>contract_init\<close> is the whole function: the object, and the lines it logs.
\<close>

definition contract_head :: "string \<Rightarrow> json \<Rightarrow> bool \<Rightarrow> error + contract" where
  "contract_head cname cjson foundry =
     and_then (getitem cjson ''id'') (\<lambda>cid.
     and_then (getitem cjson ''ast'') (\<lambda>ast.
     and_then (getitem ast ''absolutePath'') (\<lambda>path.
     and_then (if \<not> foundry then getitem cjson ''evm'' else Inr cjson) (\<lambda>evm.
     and_then (getitem evm ''deployedBytecode'') (\<lambda>deployed_bytecode.
     and_then (getitem deployed_bytecode ''object'') (\<lambda>obj.
     and_then (as_str (AttributeError ''replace'') obj) (\<lambda>code.
     and_then (py_contains ''sourceMap'' deployed_bytecode) (\<lambda>has_map.
     and_then (if has_map then getitem deployed_bytecode ''sourceMap'' else Inr JNull) (\<lambda>raw.
     and_then (getitem cjson ''abi'') (\<lambda>abi.
     and_then (py_iter abi) (\<lambda>entries.
     and_then (abi_loop cname evm entries []) (\<lambda>ms.
       Inr \<lparr> c_name = cname, contract_json = cjson, contract_id = cid, contract_path = path,
             bytecode = replace ''0x'' [] code, raw_sourcemap = raw,
             methods = sort_key signature ms, c_fields = [] \<rparr>))))))))))))"

definition contract_init :: "string \<Rightarrow> json \<Rightarrow> bool \<Rightarrow> error + (contract \<times> string list)" where
  "contract_init cname cjson foundry =
     and_then (contract_head cname cjson foundry) (\<lambda>c.
     and_then (storage_fields cname cjson) (\<lambda>fl.
       Inr (c\<lparr> c_fields := fst fl \<rparr>, snd fl)))"


section \<open>The source map\<close>

text \<open>
  \<^verbatim>\<open>Contract.srcmap\<close> first cuts the bytecode into pieces of two characters and reads
  each as a hexadecimal number, then runs over these bytes to number the instructions
  (the dictionary \<^verbatim>\<open>instr_to_pc\<close>), and then decodes the source map. The dictionary
  \<^verbatim>\<open>instr_to_pc\<close> is local to the function and is not part of what it returns.
\<close>

fun chunks2 :: "string \<Rightarrow> string list" where
  "chunks2 [] = []"
| "chunks2 [a] = [[a]]"
| "chunks2 (a # b # r) = [a, b] # chunks2 r"

definition hex_bytes :: "string \<Rightarrow> error + int list" where
  "hex_bytes code = sequence (map py_int16 (chunks2 code))"

text \<open>The \<^verbatim>\<open>while\<close> loop, on the state \<^verbatim>\<open>(instr_to_pc, pc, instr)\<close>.\<close>

function scan_loop ::
  "int list \<Rightarrow> (nat \<rightharpoonup> nat) \<times> nat \<times> nat \<Rightarrow> (nat \<rightharpoonup> nat) \<times> nat \<times> nat" where
  "scan_loop bs (instr_to_pc, pc, instr) =
     (if pc < length bs then
        (let b = bs ! pc;
             pc1 = (if 0x60 \<le> b \<and> b < 0x7F then pc + nat (b - 0x5F) else pc)
         in scan_loop bs (instr_to_pc(instr \<mapsto> pc), pc1 + 1, instr + 1))
      else (instr_to_pc, pc, instr))"
  by pat_completeness auto
termination
  by (relation "measure (\<lambda>(bs, m, pc, instr). length bs - pc)") auto

declare scan_loop.simps [simp del]

definition scan :: "int list \<Rightarrow> (nat \<rightharpoonup> nat) \<times> nat \<times> nat" where
  "scan bs = scan_loop bs (Map.empty, 0, 0)"

text \<open>
  One entry of the source map is \<^verbatim>\<open>(s, l, f, j, m)\<close>. One round of the \<^verbatim>\<open>for\<close> loop
  takes the entry so far and a segment, and gives the entry of this segment.
\<close>

type_synonym srcentry = "int \<times> int \<times> int \<times> string \<times> int"

definition field_int :: "string list \<Rightarrow> nat \<Rightarrow> int \<Rightarrow> error + int" where
  "field_int flds k cur = (if length flds > k \<and> flds ! k \<noteq> [] then py_int (flds ! k) else Inr cur)"

definition field_str :: "string list \<Rightarrow> nat \<Rightarrow> string \<Rightarrow> string" where
  "field_str flds k cur = (if length flds > k \<and> flds ! k \<noteq> [] then flds ! k else cur)"

definition decode_step :: "srcentry \<Rightarrow> string \<Rightarrow> error + srcentry" where
  "decode_step st instr_srcmap =
     (case st of (s, l, f, j, m) \<Rightarrow>
        (let flds = split CHR '':'' instr_srcmap in
         and_then (field_int flds 0 s) (\<lambda>s1.
         and_then (field_int flds 1 l) (\<lambda>l1.
         and_then (field_int flds 2 f) (\<lambda>f1.
         and_then (field_int flds 4 m) (\<lambda>m1.
           Inr (s1, l1, f1, field_str flds 3 j, m1)))))))"

fun decode_loop ::
  "(nat \<times> string) list \<Rightarrow> srcentry \<Rightarrow> (nat \<rightharpoonup> srcentry) \<Rightarrow> error + (nat \<rightharpoonup> srcentry)" where
  "decode_loop [] st d = Inr d"
| "decode_loop ((i, instr_srcmap) # rest) st d =
     (case decode_step st instr_srcmap of
        Inl e \<Rightarrow> Inl e
      | Inr st1 \<Rightarrow> decode_loop rest st1 (d(i \<mapsto> st1)))"

definition decode_srcmap :: "string \<Rightarrow> error + (nat \<rightharpoonup> srcentry)" where
  "decode_srcmap raw =
     decode_loop (enumerate 0 (split CHR '';'' raw)) (0, 0, 0, [], 0) Map.empty"

definition srcmap :: "contract \<Rightarrow> error + (nat \<rightharpoonup> srcentry)" where
  "srcmap c =
     (if length (bytecode c) > 0 \<and> raw_sourcemap c \<noteq> JNull then
        and_then (hex_bytes (bytecode c)) (\<lambda>bs.
          (let instr_to_pc = fst (scan bs) in
           and_then (as_str (AttributeError ''split'') (raw_sourcemap c)) decode_srcmap))
      else Inr Map.empty)"

section \<open>Sentences\<close>

datatype kproduction_item = KTerminal string | KNonTerminal string

text \<open>A production has a sort, items, a label (or none) and attributes; a rule has a
  body, a requires clause and an ensures clause, both \<^verbatim>\<open>TRUE\<close> unless given.\<close>

datatype ksentence =
    KProduction string "kproduction_item list" "string option" "(string \<times> string) list"
  | KRule kinner kinner kinner

subsection \<open>Of a method\<close>

definition klabel :: "Method \<Rightarrow> string" where
  "klabel m =
     ''method_'' @ contract_name m @ ''_'' @ m_name m @ ''_'' @ join ''_'' (arg_types m)"




text \<open>
  The loop of \<^verbatim>\<open>Method.rule\<close> over \<^verbatim>\<open>zip(arg_names, arg_types, strict=True)\<close>, on the
  lists \<^verbatim>\<open>args\<close> and \<^verbatim>\<open>conjuncts\<close>: \<open>None\<close> when it returns \<^verbatim>\<open>None\<close> from inside the
  loop. A strict \<^verbatim>\<open>zip\<close> raises when one list ends before the other.
\<close>

fun rule_loop ::
  "string list \<Rightarrow> string list \<Rightarrow> kinner list \<times> kinner list
     \<Rightarrow> error + (kinner list \<times> kinner list) option" where
  "rule_loop [] [] st = Inr (Some st)"
| "rule_loop (input_name # ns) (input_type # ts) (args, conjuncts) =
     (case range_predicate (KVariable input_name) input_type of
        Inl e \<Rightarrow> Inl e
      | Inr None \<Rightarrow> Inr None
      | Inr (Some rp) \<Rightarrow>
          rule_loop ns ts
            (args @ [abi_type input_type (KVariable input_name)], conjuncts @ [rp]))"
| "rule_loop _ _ st = Inl (ValueError ''zip() arguments have different lengths'')"

definition rule :: "Method \<Rightarrow> kinner \<Rightarrow> string \<Rightarrow> string \<Rightarrow> error + ksentence option" where
  "rule m contract application_label cname =
     (let arg_vars = map KVariable (arg_names m);
          prod_klabel = klabel m
      in case rule_loop (arg_names m) (arg_types m) ([], []) of
           Inl e \<Rightarrow> Inl e
         | Inr None \<Rightarrow> Inr None
         | Inr (Some (args, conjuncts)) \<Rightarrow>
             (let lhs = KApply application_label [contract, KApply prod_klabel arg_vars];
                  rhs = abi_calldata (m_name m) args;
                  ensures = andBool conjuncts
              in Inr (Some (KRule (KRewrite lhs rhs) TRUE ensures))))"

subsection \<open>Of a contract\<close>




















subsection \<open>Looking a method up\<close>

definition method_by_name :: "contract \<Rightarrow> string \<Rightarrow> error + Method option" where
  "method_by_name c name =
     (let ms = filter (\<lambda>m. m_name m = ''setUp'') (methods c) in
      if length ms > 1 then
        Inl (ValueError (''Found multiple methods with name '' @ name @ '', expected at most one''))
      else if ms = [] then Inr None
      else Inr (Some (ms ! 0)))"


section \<open>The lookup by name searches for \<^verbatim>\<open>setUp\<close>\<close>

text \<open>A contract with the two methods \<^verbatim>\<open>foo()\<close> and \<^verbatim>\<open>setUp()\<close>.\<close>

definition setUp_method :: Method where
  "setUp_method = \<lparr> m_name = ''setUp'', m_id = 177362148, m_sort = ''CMethod'', arg_names = [],
     arg_types = [], contract_name = ''C'', payable = False, signature = ''setUp()'' \<rparr>"

definition foo_method :: Method where
  "foo_method = \<lparr> m_name = ''foo'', m_id = 3264763256, m_sort = ''CMethod'', arg_names = [],
     arg_types = [], contract_name = ''C'', payable = False, signature = ''foo()'' \<rparr>"

definition two_methods :: contract where
  "two_methods = \<lparr> c_name = ''C'', contract_json = JObj [], contract_id = JInt 0,
     contract_path = JStr ''C.sol'', bytecode = ''00'', raw_sourcemap = JNull,
     methods = [foo_method, setUp_method], c_fields = [] \<rparr>"

text \<open>
  Claim C9. \<^verbatim>\<open>method_by_name\<close> searches for the methods named \<^verbatim>\<open>setUp\<close>, whatever
  name it is given: it returns \<^verbatim>\<open>None\<close> when the contract has none, the method when it
  has exactly one, and raises \<^verbatim>\<open>ValueError\<close> when it has more than one. Whether it
  raises, and what it returns, is the same for any two names; the name only appears in
  the text of the exception.
\<close>

theorem method_by_name_ignores_name:
  "(filter (\<lambda>m. m_name m = ''setUp'') (methods c) = [] \<longrightarrow> method_by_name c name = Inr None)
   \<and> (\<forall>m. filter (\<lambda>m. m_name m = ''setUp'') (methods c) = [m]
          \<longrightarrow> method_by_name c name = Inr (Some m))
   \<and> (1 < length (filter (\<lambda>m. m_name m = ''setUp'') (methods c))
          \<longrightarrow> (\<exists>msg. method_by_name c name = Inl (ValueError msg)))
   \<and> isl (method_by_name c name) = isl (method_by_name c name')
   \<and> (\<forall>r. method_by_name c name = Inr r \<longrightarrow> method_by_name c name' = Inr r)"
  by (auto simp: method_by_name_def Let_def)

theorem method_by_name_ignores_name_witness:
  "method_by_name two_methods ''foo'' = Inr (Some setUp_method)
   \<and> method_by_name two_methods ''bar'' = Inr (Some setUp_method)"
proof -
  have f: "filter (\<lambda>m. m_name m = ''setUp'') (methods two_methods) = [setUp_method]"
    by (simp add: two_methods_def foo_method_def setUp_method_def)
  show ?thesis
    using method_by_name_ignores_name[of two_methods "''foo''" "''bar''"] f 
          method_by_name_ignores_name[of two_methods "''bar''" "''foo''"] by blast
qed


section \<open>Numbering the instructions\<close>

text \<open>
  The address after the instruction at \<open>pc\<close>, as one round of the \<^verbatim>\<open>while\<close> loop
  computes it: past the immediate data when the byte \<open>b\<close> has \<open>0x60 \<le> b < 0x7F\<close>, and
  one further.
\<close>

definition next_pc :: "int list \<Rightarrow> nat \<Rightarrow> nat" where
  "next_pc bs pc =
     (if 0x60 \<le> bs ! pc \<and> bs ! pc < 0x7F then pc + nat (bs ! pc - 0x5F) else pc) + 1"

lemma scan_loop_unfold:
  "pc < length bs \<Longrightarrow>
   scan_loop bs (m, pc, i) = scan_loop bs (m(i \<mapsto> pc), next_pc bs pc, Suc i)"
  by (subst scan_loop.simps) (simp add: next_pc_def Let_def)

lemma scan_loop_stop: "\<not> pc < length bs \<Longrightarrow> scan_loop bs (m, pc, i) = (m, pc, i)"
  by (subst scan_loop.simps) simp

lemma next_pc_greater: "pc < next_pc bs pc"
  by (simp add: next_pc_def)

lemma scan_loop_invariant:
  assumes "dom m0 = {..<i0}"
      and "\<forall>k<i0. the (m0 k) < pc0"
      and "\<forall>j<i0. \<forall>k<j. the (m0 k) < the (m0 j)"
      and "\<forall>k. Suc k < i0 \<longrightarrow> the (m0 (Suc k)) = next_pc bs (the (m0 k))"
      and "0 < i0 \<longrightarrow> pc0 = next_pc bs (the (m0 (i0 - 1)))"
      and "scan_loop bs (m0, pc0, i0) = (m, pc, n)"
  shows "dom m = {..<n}
       \<and> (\<forall>j<n. \<forall>k<j. the (m k) < the (m j))
       \<and> (\<forall>k<n. i0 \<le> k \<longrightarrow> the (m k) < length bs)
       \<and> (\<forall>k. Suc k < n \<longrightarrow> the (m (Suc k)) = next_pc bs (the (m k)))
       \<and> i0 \<le> n \<and> (\<forall>k<i0. m k = m0 k) \<and> (i0 < n \<longrightarrow> m i0 = Some pc0)
       \<and> length bs \<le> pc"
  using assms
proof (induction bs "(m0, pc0, i0)" arbitrary: m0 pc0 i0 rule: scan_loop.induct)
  case (1 bs m0 pc0 i0)
  show ?case
  proof (cases "pc0 < length bs")
    case False
    with "1.prems" show ?thesis by (simp add: scan_loop_stop)
  next
    case True
    define b where "b = bs ! pc0"
    define pc1 where "pc1 = (if 0x60 \<le> b \<and> b < 0x7F then pc0 + nat (b - 0x5F) else pc0)"
    have n1: "pc1 + 1 = next_pc bs pc0" by (simp add: pc1_def b_def next_pc_def)
    have le: "pc0 \<le> pc1" by (simp add: pc1_def)
    let ?m1 = "m0(i0 \<mapsto> pc0)"
    have next_eq: "scan_loop bs (?m1, pc1 + 1, i0 + 1) = (m, pc, n)"
      using "1.prems"(6) True unfolding n1 by (simp add: scan_loop_unfold)
    have d: "dom ?m1 = {..<i0 + 1}" using "1.prems"(1) by auto
    have p: "\<forall>k<i0 + 1. the (?m1 k) < pc1 + 1"
      using "1.prems"(2) le by (auto simp: less_Suc_eq)
    have inc: "\<forall>j<i0 + 1. \<forall>k<j. the (?m1 k) < the (?m1 j)"
      using "1.prems"(2,3) by (auto simp: less_Suc_eq)
    have nx: "\<forall>k. Suc k < i0 + 1 \<longrightarrow> the (?m1 (Suc k)) = next_pc bs (the (?m1 k))"
    proof (intro allI impI)
      fix k assume k: "Suc k < i0 + 1"
      show "the (?m1 (Suc k)) = next_pc bs (the (?m1 k))"
      proof (cases "Suc k = i0")
        case True
        then show ?thesis using "1.prems"(5) by auto
      next
        case False
        then show ?thesis using k "1.prems"(4) by auto
      qed
    qed
    have lst: "0 < i0 + 1 \<longrightarrow> pc1 + 1 = next_pc bs (the (?m1 (i0 + 1 - 1)))"
      using n1 by simp
    have IH: "dom m = {..<n}
       \<and> (\<forall>j<n. \<forall>k<j. the (m k) < the (m j))
       \<and> (\<forall>k<n. i0 + 1 \<le> k \<longrightarrow> the (m k) < length bs)
       \<and> (\<forall>k. Suc k < n \<longrightarrow> the (m (Suc k)) = next_pc bs (the (m k)))
       \<and> i0 + 1 \<le> n \<and> (\<forall>k<i0 + 1. m k = ?m1 k) \<and> (i0 + 1 < n \<longrightarrow> m (i0 + 1) = Some (pc1 + 1))
       \<and> length bs \<le> pc"
      by (rule "1.hyps"[OF True b_def pc1_def d p inc nx lst next_eq])
    then have mi: "m i0 = Some pc0" by simp
    have bound: "\<forall>k<n. i0 \<le> k \<longrightarrow> the (m k) < length bs"
    proof (intro allI impI)
      fix k assume k: "k < n" "i0 \<le> k"
      show "the (m k) < length bs"
      proof (cases "k = i0")
        case True
        then show ?thesis using mi \<open>pc0 < length bs\<close> by simp
      next
        case False
        then have "i0 + 1 \<le> k" using k by simp
        with IH k show ?thesis by blast
      qed
    qed
    from IH bound mi show ?thesis by simp
  qed
qed

lemma scan_indexing:
  assumes "scan bs = (m, pc, n)"
  shows "dom m = {..<n}
       \<and> (\<forall>j<n. \<forall>k<j. the (m k) < the (m j))
       \<and> (\<forall>k<n. the (m k) < length bs)
       \<and> (0 < n \<longrightarrow> m 0 = Some 0)
       \<and> (\<forall>k. Suc k < n \<longrightarrow> the (m (Suc k)) = next_pc bs (the (m k)))
       \<and> length bs \<le> pc"
  using scan_loop_invariant[of Map.empty 0 0 bs m pc n] assms
  by (simp add: scan_def)


text \<open>
  So the instructions are numbered from 0 without gaps, their addresses strictly
  increase and lie inside the bytecode, the first is at 0, and each next one is at
  \<open>next_pc\<close> of the one before. Five times \<^verbatim>\<open>PUSH1 0x00\<close> are five instructions at
  0, 2, 4, 6, 8; \<^verbatim>\<open>PUSH31\<close> with its data is one instruction.
\<close>

lemma scan_five_push1:
  "snd (scan [0x60, 0, 0x60, 0, 0x60, 0, 0x60, 0, 0x60, 0]) = (10, 5)
   \<and> map (fst (scan [0x60, 0, 0x60, 0, 0x60, 0, 0x60, 0, 0x60, 0])) [0, 1, 2, 3, 4, 5]
       = [Some 0, Some 2, Some 4, Some 6, Some 8, None]"
  by code_simp

lemma scan_push31:
  "snd (scan (0x7E # replicate 31 0)) = (32, 1)
   \<and> map (fst (scan (0x7E # replicate 31 0))) [0, 1] = [Some 0, None]"
  by code_simp

lemma next_pc_push32: "next_pc (0x7F # bs) 0 = 1"
  by (simp add: next_pc_def)

text \<open>
  Claim C1 has a byte taken as a push exactly when it is one of \<^verbatim>\<open>PUSH1\<close> ..
  \<^verbatim>\<open>PUSH32\<close>, that is \<open>0x60 .. 0x7F\<close>, with a width of 1 to 32. The loop tests
  \<open>0x60 \<le> b < 0x7F\<close>, which leaves \<^verbatim>\<open>PUSH32\<close> (\<open>0x7F\<close>) out. On the 33 bytes of one
  \<^verbatim>\<open>PUSH32\<close> and its 32 bytes of data, all zero, the scan numbers 33 instructions, at
  the addresses 0, 1, 2, ..., 32: each byte of the data counts as an instruction, where
  the claim has the single instruction at address 0.
\<close>

theorem scan_push32_counts_its_data:
  "snd (scan (0x7F # replicate 32 0)) = (33, 33)
   \<and> map (fst (scan (0x7F # replicate 32 0))) [0, 1, 2, 32, 33]
       = [Some 0, Some 1, Some 2, Some 32, None]"
  by code_simp

section \<open>Decoding the source map\<close>

text \<open>
  The specification of the decoder, in its own words. A field of a segment is
  \<^emph>\<open>written\<close> when the segment has that many parts and the part is not empty. The
  text an entry has for a field is the one written in its segment, or else the one the
  entry before has; the first entry starts from nothing. An entry is made from these
  texts: the number the text reads as, and the defaults (0, 0, 0, the empty string, 0)
  where there is no text.
\<close>

definition written :: "nat \<Rightarrow> string \<Rightarrow> string option" where
  "written k seg =
     (let flds = split CHR '':'' seg in
      if k < length flds \<and> flds ! k \<noteq> [] then Some (flds ! k) else None)"

fun inherited :: "nat \<Rightarrow> string list \<Rightarrow> nat \<Rightarrow> string option" where
  "inherited k segs 0 = written k (segs ! 0)"
| "inherited k segs (Suc i) =
     (case written k (segs ! Suc i) of
        Some t \<Rightarrow> Some t
      | None \<Rightarrow> inherited k segs i)"

definition int_or :: "int \<Rightarrow> string option \<Rightarrow> int" where
  "int_or dflt w =
     (case w of
        None \<Rightarrow> dflt
      | Some t \<Rightarrow> (case py_int_base 10 t of Some v \<Rightarrow> v | None \<Rightarrow> dflt))"

definition str_or :: "string \<Rightarrow> string option \<Rightarrow> string" where
  "str_or dflt w = (case w of None \<Rightarrow> dflt | Some t \<Rightarrow> t)"

definition spec_entry :: "string list \<Rightarrow> nat \<Rightarrow> srcentry" where
  "spec_entry segs i =
     (int_or 0 (inherited 0 segs i), int_or 0 (inherited 1 segs i), int_or 0 (inherited 2 segs i),
      str_or [] (inherited 3 segs i), int_or 0 (inherited 4 segs i))"

definition readable :: "nat \<Rightarrow> string \<Rightarrow> bool" where
  "readable k seg = (case written k seg of None \<Rightarrow> True | Some t \<Rightarrow> py_int_base 10 t \<noteq> None)"

definition well_formed_segment :: "string \<Rightarrow> bool" where
  "well_formed_segment seg = (readable 0 seg \<and> readable 1 seg \<and> readable 2 seg \<and> readable 4 seg)"

definition step_ok :: "srcentry \<Rightarrow> string \<Rightarrow> srcentry" where
  "step_ok st seg =
     (case st of (s, l, f, j, m) \<Rightarrow>
        (int_or s (written 0 seg), int_or l (written 1 seg), int_or f (written 2 seg),
         str_or j (written 3 seg), int_or m (written 4 seg)))"


text \<open>A segment is well formed when the texts written for start, length, file index
  and modifier depth are numbers \<^verbatim>\<open>int\<close> reads. \<open>step_ok\<close> is one round of the loop
  on such a segment.\<close>

lemma field_int_readable:
  "readable k seg \<Longrightarrow> field_int (split CHR '':'' seg) k cur = Inr (int_or cur (written k seg))"
  by (auto simp: readable_def field_int_def written_def int_or_def py_int_def Let_def
           split: option.splits if_splits)

lemma field_str_written: "field_str (split CHR '':'' seg) k cur = str_or cur (written k seg)"
  by (simp add: field_str_def written_def str_or_def Let_def)

lemma decode_step_ok: "well_formed_segment seg \<Longrightarrow> decode_step st seg = Inr (step_ok st seg)"
  by (cases st)
     (simp add: decode_step_def step_ok_def well_formed_segment_def and_then_def
                field_int_readable field_str_written Let_def)

lemma decode_loop_ok:
  "\<forall>seg\<in>set segs. well_formed_segment seg \<Longrightarrow>
   decode_loop (enumerate n segs) st d
     = Inr (\<lambda>i. if n \<le> i \<and> i < n + length segs
                  then Some (foldl step_ok st (take (Suc (i - n)) segs)) else d i)"
proof (induction segs arbitrary: n st d)
  case Nil
  then show ?case by (auto simp: fun_eq_iff)
next
  case (Cons seg segs)
  have w: "well_formed_segment seg" and ws: "\<forall>s\<in>set segs. well_formed_segment s"
    using Cons.prems by simp_all
  have "decode_loop (enumerate n (seg # segs)) st d
          = decode_loop (enumerate (Suc n) segs) (step_ok st seg) (d(n \<mapsto> step_ok st seg))"
    by (simp add: decode_step_ok[OF w])
  also have "\<dots> = Inr (\<lambda>i. if Suc n \<le> i \<and> i < Suc n + length segs
                  then Some (foldl step_ok (step_ok st seg) (take (Suc (i - Suc n)) segs))
                  else (d(n \<mapsto> step_ok st seg)) i)"
    by (rule Cons.IH[OF ws])
  also have "\<dots> = Inr (\<lambda>i. if n \<le> i \<and> i < n + length (seg # segs)
                  then Some (foldl step_ok st (take (Suc (i - n)) (seg # segs))) else d i)"
  proof -
    have "\<And>i. (if Suc n \<le> i \<and> i < Suc n + length segs
                  then Some (foldl step_ok (step_ok st seg) (take (Suc (i - Suc n)) segs))
                  else (d(n \<mapsto> step_ok st seg)) i)
            = (if n \<le> i \<and> i < n + length (seg # segs)
                  then Some (foldl step_ok st (take (Suc (i - n)) (seg # segs))) else d i)"
    proof -
      fix i
      consider "i < n" | "i = n" | "n < i"  by linarith
      then show "(if Suc n \<le> i \<and> i < Suc n + length segs
                  then Some (foldl step_ok (step_ok st seg) (take (Suc (i - Suc n)) segs))
                  else (d(n \<mapsto> step_ok st seg)) i)
            = (if n \<le> i \<and> i < n + length (seg # segs)
                  then Some (foldl step_ok st (take (Suc (i - n)) (seg # segs))) else d i)"
      proof cases
        case 1 then show ?thesis by simp
      next
        case 2 then show ?thesis by simp
      next
        case 3
        then have "i - n = Suc (i - Suc n)" by simp
        with 3 show ?thesis by simp
      qed
    qed
    then show ?thesis by simp
  qed
  finally show ?case .
qed

lemma inherited_step_int:
  "readable k (segs ! Suc i) \<Longrightarrow>
   int_or (int_or d (inherited k segs i)) (written k (segs ! Suc i))
     = int_or d (inherited k segs (Suc i))"
  by (cases "written k (segs ! Suc i)") (auto simp: int_or_def readable_def)

lemma inherited_step_str:
  "str_or (str_or e (inherited k segs i)) (written k (segs ! Suc i))
     = str_or e (inherited k segs (Suc i))"
  by (cases "written k (segs ! Suc i)") (simp_all add: str_or_def)

lemma foldl_step_spec:
  "\<forall>seg\<in>set segs. well_formed_segment seg \<Longrightarrow> i < length segs \<Longrightarrow>
   foldl step_ok (0, 0, 0, [], 0) (take (Suc i) segs) = spec_entry segs i"
proof (induction i)
  case 0
  then have "take (Suc 0) segs = [segs ! 0]" by (cases segs) simp_all
  then show ?case by (simp add: step_ok_def spec_entry_def)
next
  case (Suc i)
  then have t: "take (Suc (Suc i)) segs = take (Suc i) segs @ [segs ! Suc i]"
    by (simp add: take_Suc_conv_app_nth)
  have IH: "foldl step_ok (0, 0, 0, [], 0) (take (Suc i) segs) = spec_entry segs i"
    using Suc by simp
  have "well_formed_segment (segs ! Suc i)" using Suc.prems by simp
  then have r: "readable 0 (segs ! Suc i)" "readable (Suc 0) (segs ! Suc i)"
    "readable 2 (segs ! Suc i)" "readable 4 (segs ! Suc i)"
    by (simp_all add: well_formed_segment_def)
  show ?case
    unfolding t foldl_append IH
    by (simp add: step_ok_def spec_entry_def inherited_step_int[OF r(1)] inherited_step_int[OF r(2)]
          inherited_step_int[OF r(3)] inherited_step_int[OF r(4)] inherited_step_str
          del: inherited.simps)
qed

lemma decode_srcmap_entries:
  assumes "\<forall>seg\<in>set (split CHR '';'' raw). well_formed_segment seg"
  shows "decode_srcmap raw
           = Inr (\<lambda>i. if i < length (split CHR '';'' raw)
                       then Some (spec_entry (split CHR '';'' raw) i) else None)"
  unfolding decode_srcmap_def decode_loop_ok[OF assms]
  by (simp add: fun_eq_iff foldl_step_spec[OF assms])

text \<open>
  The bytecode of an artifact is written in hexadecimal digits; every piece of one or
  two of them is a number \<^verbatim>\<open>int(_, 16)\<close> reads.
\<close>

definition is_hex :: "char \<Rightarrow> bool" where
  "is_hex c = (c \<in> set ''0123456789abcdefABCDEF'')"

lemma is_hex_props:
  "is_hex c \<Longrightarrow> (\<exists>d<16. digit_val c = Some d) \<and> c \<noteq> CHR ''_'' \<and> \<not> is_space c
     \<and> c \<noteq> CHR ''-'' \<and> c \<noteq> CHR ''+'' \<and> c \<noteq> CHR ''x'' \<and> c \<noteq> CHR ''X''"
  by (auto simp: is_hex_def digit_val_def is_space_def)

lemma py_int16_one: "is_hex a \<Longrightarrow> \<exists>n. py_int16 [a] = Inr n"
  using is_hex_props[of a]
  by (auto simp: py_int16_def py_int_base_def strip_def strip_base_prefix_def startswith_def Let_def)

lemma py_int16_two: "is_hex a \<Longrightarrow> is_hex b \<Longrightarrow> \<exists>n. py_int16 [a, b] = Inr n"
  using is_hex_props[of a] is_hex_props[of b]
  by (auto simp: py_int16_def py_int_base_def strip_def strip_base_prefix_def startswith_def Let_def)

lemma hex_bytes_ok: "\<forall>ch\<in>set code. is_hex ch \<Longrightarrow> \<exists>bs. hex_bytes code = Inr bs"
proof (induction code rule: chunks2.induct)
  case 1
  then show ?case by (simp add: hex_bytes_def)
next
  case (2 a)
  then show ?case using py_int16_one[of a] by (auto simp: hex_bytes_def)
next
  case (3 a b r)
  then obtain bs where "hex_bytes r = Inr bs" by auto
  moreover obtain n where "py_int16 [a, b] = Inr n" using 3(2) py_int16_two[of a b] by auto
  ultimately show ?case by (simp add: hex_bytes_def)
qed


text \<open>A contract whose bytecode is three times \<^verbatim>\<open>PUSH1 0x00\<close>, with a source map of
  three segments.\<close>

definition source_map_example :: contract where
  "source_map_example = \<lparr> c_name = ''C'', contract_json = JObj [], contract_id = JInt 0,
     contract_path = JStr ''C.sol'', bytecode = ''600060006000'',
     raw_sourcemap = JStr ''1:2:0;;3:4:1'', methods = [], c_fields = [] \<rparr>"

text \<open>
  Claim C3. For every contract whose bytecode is not empty and hexadecimal, and whose
  source map is a string with well-formed segments, \<^verbatim>\<open>Contract.srcmap\<close> returns a
  dictionary with one entry per segment, under the keys \<open>0, 1, ...\<close> in the order of
  the segments, and the entry of segment \<open>i\<close> has, field by field, the value written in
  segment \<open>i\<close> or else the value of entry \<open>i - 1\<close>, starting from the defaults
  (0, 0, 0, the empty string, 0). The string \<^verbatim>\<open>1:2:0;;3:4:1\<close> gives the three entries
  (1, 2, 0, empty, 0), (1, 2, 0, empty, 0), (3, 4, 1, empty, 0).
\<close>

theorem srcmap_entries_inherit:
  assumes "bytecode c \<noteq> []"
      and "\<forall>ch\<in>set (bytecode c). is_hex ch"
      and "raw_sourcemap c = JStr raw"
      and "\<forall>seg\<in>set (split CHR '';'' raw). well_formed_segment seg"
  shows "\<exists>d. srcmap c = Inr d
           \<and> dom d = {..<length (split CHR '';'' raw)}
           \<and> (\<forall>i<length (split CHR '';'' raw). d i = Some (spec_entry (split CHR '';'' raw) i))"
proof -
  let ?segs = "split CHR '';'' raw"
  let ?d = "\<lambda>i. if i < length ?segs then Some (spec_entry ?segs i) else None"
  obtain bs where bs: "hex_bytes (bytecode c) = Inr bs"
    using hex_bytes_ok[OF assms(2)] by blast
  have "srcmap c = decode_srcmap raw"
    using assms(1,3) bs by (simp add: srcmap_def and_then_def as_str_def)
  then have "srcmap c = Inr ?d"
    by (simp add: decode_srcmap_entries[OF assms(4)])
  moreover have "dom ?d = {..<length ?segs}" by (auto split: if_splits)
  ultimately show ?thesis by auto
qed

theorem srcmap_entries_inherit_witness:
  "\<exists>d. srcmap source_map_example = Inr d
       \<and> dom d = {..<3}
       \<and> d 0 = Some (1, 2, 0, [], 0)
       \<and> d 1 = Some (1, 2, 0, [], 0)
       \<and> d 2 = Some (3, 4, 1, [], 0)"
proof -
  have segs: "split CHR '';'' ''1:2:0;;3:4:1'' = [''1:2:0'', [], ''3:4:1'']"
    by code_simp
  have wf: "\<forall>seg\<in>set (split CHR '';'' ''1:2:0;;3:4:1''). well_formed_segment seg"
    unfolding segs by code_simp
  have e: "map (spec_entry [''1:2:0'', [], ''3:4:1'']) [0, 1, 2]
             = [(1, 2, 0, [], 0), (1, 2, 0, [], 0), (3, 4, 1, [], 0)]"
    by code_simp
  have b: "bytecode source_map_example \<noteq> []" by (simp add: source_map_example_def)
  have h: "\<forall>ch\<in>set (bytecode source_map_example). is_hex ch"
    by (simp add: source_map_example_def is_hex_def)
  have r: "raw_sourcemap source_map_example = JStr ''1:2:0;;3:4:1''"
    by (simp add: source_map_example_def)
  from srcmap_entries_inherit[OF b h r wf] obtain d where d:
    "srcmap source_map_example = Inr d" "dom d = {..<3}"
    "\<forall>i<3. d i = Some (spec_entry [''1:2:0'', [], ''3:4:1''] i)"
    unfolding segs by auto
  have "d 0 = Some (1, 2, 0, [], 0)" "d 1 = Some (1, 2, 0, [], 0)" "d 2 = Some (3, 4, 1, [], 0)"
    using d(3) e by simp_all
  with d(1,2) show ?thesis by blast
qed

text \<open>
  With an empty bytecode, or with no source map, \<^verbatim>\<open>Contract.srcmap\<close> is the empty
  dictionary: the guard of the function comes before the decoder.
\<close>

lemma srcmap_empty:
  "bytecode c = [] \<or> raw_sourcemap c = JNull \<Longrightarrow> srcmap c = Inr Map.empty"
  by (auto simp: srcmap_def)

section \<open>Example artifacts\<close>

text \<open>
  Reading a dictionary, a list, and what the examples below are made of: an input of
  an ABI entry, a tuple input with its components, a function entry, and the artifact of
  a contract \<^verbatim>\<open>C\<close> with a given ABI, a given table of method identifiers and, after
  these, further keys. \<open>model_of\<close> is the object \<^verbatim>\<open>Contract.__init__\<close> makes of such an
  artifact, before its fields are set.
\<close>

lemma getitem_JObj:
  "getitem (JObj kvs) k = (case map_of kvs k of None \<Rightarrow> Inl (KeyError k) | Some v \<Rightarrow> Inr v)"
  by (simp add: getitem_def)

lemma py_contains_JObj: "py_contains k (JObj kvs) = Inr (k \<in> set (map fst kvs))"
  by (simp add: py_contains_def)

lemma py_iter_JArr: "py_iter (JArr xs) = Inr xs"
  by (simp add: py_iter_def)

lemma getitem_contains: "getitem d k = Inr v \<Longrightarrow> py_contains k d = Inr True"
  by (cases d) (auto simp: getitem_def py_contains_def split: option.splits dest: map_of_SomeD intro: rev_image_eqI)

definition abi_input :: "string \<Rightarrow> string \<Rightarrow> json" where
  "abi_input nm ty = JObj [(''name'', JStr nm), (''type'', JStr ty)]"

definition abi_tuple :: "string \<Rightarrow> string \<Rightarrow> json list \<Rightarrow> json" where
  "abi_tuple nm ty cs = JObj [(''name'', JStr nm), (''type'', JStr ty), (''components'', JArr cs)]"

definition abi_function :: "string \<Rightarrow> json list \<Rightarrow> string \<Rightarrow> json" where
  "abi_function nm inputs mut =
     JObj [(''type'', JStr ''function''), (''name'', JStr nm), (''inputs'', JArr inputs),
           (''stateMutability'', JStr mut)]"

definition evm_of :: "(string \<times> json) list \<Rightarrow> json" where
  "evm_of ids = JObj [(''deployedBytecode'', JObj [(''object'', JStr ''0x00'')]),
                     (''methodIdentifiers'', JObj ids)]"

definition artifact :: "json list \<Rightarrow> (string \<times> json) list \<Rightarrow> (string \<times> json) list \<Rightarrow> json" where
  "artifact abi ids extra =
     JObj ([(''id'', JInt 0), (''ast'', JObj [(''absolutePath'', JStr ''C.sol'')]),
            (''abi'', JArr abi), (''evm'', evm_of ids)] @ extra)"

definition model_of :: "json \<Rightarrow> Method list \<Rightarrow> contract" where
  "model_of cjson ms = \<lparr> c_name = ''C'', contract_json = cjson, contract_id = JInt 0,
     contract_path = JStr ''C.sol'', bytecode = ''00'', raw_sourcemap = JNull,
     methods = ms, c_fields = [] \<rparr>"

lemma getitem_fixtures [simp]:
  "getitem (abi_input nm ty) ''type'' = Inr (JStr ty)"
  "getitem (abi_input nm ty) ''name'' = Inr (JStr nm)"
  "getitem (abi_tuple nm ty cs) ''type'' = Inr (JStr ty)"
  "getitem (abi_tuple nm ty cs) ''name'' = Inr (JStr nm)"
  "getitem (abi_tuple nm ty cs) ''components'' = Inr (JArr cs)"
  "getitem (abi_function nm inputs mut) ''type'' = Inr (JStr ''function'')"
  "getitem (abi_function nm inputs mut) ''name'' = Inr (JStr nm)"
  "getitem (abi_function nm inputs mut) ''inputs'' = Inr (JArr inputs)"
  "getitem (abi_function nm inputs mut) ''stateMutability'' = Inr (JStr mut)"
  "getitem (evm_of ids) ''methodIdentifiers'' = Inr (JObj ids)"
  by (simp_all add: getitem_def abi_input_def abi_tuple_def abi_function_def evm_of_def)

lemma contract_head_artifact:
  assumes "abi_loop ''C'' (evm_of ids) abi [] = Inr ms"
  shows "contract_head ''C'' (artifact abi ids extra) False
           = Inr (model_of (artifact abi ids extra) (sort_key signature ms))"
proof -
  have r: "replace ''0x'' [] ''0x00'' = ''00''" by (simp add: startswith_def)
  have g: "getitem (artifact abi ids extra) ''id'' = Inr (JInt 0)"
    "getitem (artifact abi ids extra) ''ast'' = Inr (JObj [(''absolutePath'', JStr ''C.sol'')])"
    "getitem (artifact abi ids extra) ''abi'' = Inr (JArr abi)"
    "getitem (artifact abi ids extra) ''evm'' = Inr (evm_of ids)"
    by (simp_all add: artifact_def getitem_JObj)
  have e: "getitem (evm_of ids) ''deployedBytecode'' = Inr (JObj [(''object'', JStr ''0x00'')])"
    by (simp add: evm_of_def getitem_JObj)
  show ?thesis
    unfolding contract_head_def g and_then_def sum.case
    by (simp add: e getitem_JObj as_str_def py_contains_JObj py_iter_JArr assms model_of_def startswith_def)
qed

lemmas py_int_eval = py_int_def py_int16_def py_int_base_def strip_def is_space_def
  strip_base_prefix_def startswith_def digit_val_def Let_def


section \<open>Storage fields: the first slot of a label is kept\<close>

text \<open>
  What the loop over the storage layout computes for labels that are strings, told
  without the dictionary: the entries whose label was not seen before, and the labels
  that were. \<open>storage_entry f (l, s)\<close> says that the entry \<open>f\<close> of the storage layout
  has the label \<open>l\<close> and the slot \<open>s\<close>, written as a number or, as the compiler does,
  as its decimal string.
\<close>

fun first_wins :: "string set \<Rightarrow> (string \<times> int) list \<Rightarrow> (string \<times> int) list" where
  "first_wins seen [] = []"
| "first_wins seen ((l, s) # es) =
     (if l \<in> seen then first_wins seen es else (l, s) # first_wins (insert l seen) es)"

fun later_duplicates :: "string set \<Rightarrow> (string \<times> int) list \<Rightarrow> string list" where
  "later_duplicates seen [] = []"
| "later_duplicates seen ((l, s) # es) =
     (if l \<in> seen then l # later_duplicates seen es else later_duplicates (insert l seen) es)"

definition str_keys :: "(string \<times> int) list \<Rightarrow> (pykey \<times> int) list" where
  "str_keys flds = map (\<lambda>(l, s). (KeyStr l, s)) flds"

definition str_labels :: "(string \<times> int) list \<Rightarrow> (json \<times> int) list" where
  "str_labels es = map (\<lambda>(l, s). (JStr l, s)) es"

lemma dict_set_new:
  "key_norm k \<notin> set (map (\<lambda>kv. key_norm (fst kv)) d) \<Longrightarrow> dict_set d k v = d @ [(k, v)]"
  by (induction d) auto

lemma key_norm_str_keys:
  "set (map (\<lambda>kv. key_norm (fst kv)) (str_keys flds)) = KeyStr ` set (map fst flds)"
  by (induction flds) (auto simp: str_keys_def key_norm_def)

lemma fields_loop_first_wins:
  "fields_loop cname (str_labels es) (str_keys flds, log) =
     Inr (str_keys (flds @ first_wins (set (map fst flds)) es),
          log @ map (duplicate_message cname) (later_duplicates (set (map fst flds)) es))"
proof (induction es arbitrary: flds log)
  case Nil
  then show ?case by (simp add: str_labels_def)
next
  case (Cons e es)
  obtain l s where e: "e = (l, s)" by (cases e)
  have k: "as_key (JStr l) = Inr (KeyStr l)" "key_norm (KeyStr l) = KeyStr l" "key_str (KeyStr l) = l"
    by (simp_all add: as_key_def key_norm_def key_str_def)
  have mem: "(KeyStr l \<in> set (map (\<lambda>kv. key_norm (fst kv)) (str_keys flds))) = (l \<in> set (map fst flds))"
    unfolding key_norm_str_keys by auto
  have step: "str_labels (e # es) = (JStr l, s) # str_labels es"
    by (simp add: str_labels_def e)
  show ?case
  proof (cases "l \<in> set (map fst flds)")
    case True
    then show ?thesis
      unfolding step using Cons[of flds "log @ [duplicate_message cname l]"] mem
      by (simp add: k e)
  next
    case False
    have "KeyStr l \<notin> set (map (\<lambda>kv. key_norm (fst kv)) (str_keys flds))" using False mem by simp
    then have ds: "dict_set (str_keys flds) (KeyStr l) s = str_keys (flds @ [(l, s)])"
      using dict_set_new[of "KeyStr l" "str_keys flds" s] by (simp add: k str_keys_def)
    show ?thesis
      unfolding step using Cons[of "flds @ [(l, s)]" log] mem False
      by (simp add: k e ds)
  qed
qed

lemma map_of_first_wins: "map_of (first_wins seen es) l = (if l \<in> seen then None else map_of es l)"
  by (induction seen es rule: first_wins.induct) auto

lemma keys_first_wins: "set (map fst (first_wins seen es)) = set (map fst es) - seen"
  by (induction seen es rule: first_wins.induct) auto

lemma distinct_first_wins: "distinct (map fst (first_wins seen es))"
  by (induction seen es rule: first_wins.induct) (auto simp: keys_first_wins simp del: set_map)

lemma length_first_wins:
  "length (first_wins seen es) + length (later_duplicates seen es) = length es"
  by (induction seen es rule: first_wins.induct) auto

lemma set_later_duplicates:
  "set (later_duplicates seen es)
     = {l \<in> set (map fst es). l \<in> seen \<or> 1 < count_list (map fst es) l}"
proof (induction seen es rule: later_duplicates.induct)
  case (1 seen)
  then show ?case by simp
next
  case (2 seen l s es)
  have c: "\<And>x. x \<notin> fst ` set es \<Longrightarrow> count_list (map fst es) x = 0"
    by (simp add: count_list_0_iff)
  have d: "\<And>x b. (x, b) \<in> set es \<Longrightarrow> 0 < count_list (map fst es) x"
    by (metis count_list_0_iff gr0I set_map fst_conv image_eqI)
  show ?case
  proof (cases "l \<in> seen")
    case True
    with 2 show ?thesis by (auto dest: d)
  next
    case False
    with 2 show ?thesis by (auto dest: d simp: c)
  qed
qed

definition storage_entry :: "json \<Rightarrow> string \<times> int \<Rightarrow> bool" where
  "storage_entry f e =
     (getitem f ''label'' = Inr (JStr (fst e))
      \<and> (getitem f ''slot'' = Inr (JInt (snd e))
         \<or> getitem f ''slot'' = Inr (JStr (str_int (snd e)))))"

lemma field_entry_storage_entry: "storage_entry f (l, s) \<Longrightarrow> field_entry f = Inr (JStr l, s)"
  by (auto simp: storage_entry_def field_entry_def and_then_def slot_int_def py_int_str_int)

lemma field_entries:
  "list_all2 storage_entry fs es \<Longrightarrow> sequence (map field_entry fs) = Inr (str_labels es)"
proof (induction rule: list_all2_induct)
  case Nil
  then show ?case by (simp add: str_labels_def)
next
  case (Cons f fs e es)
  obtain l s where e: "e = (l, s)" by (cases e)
  show ?case using Cons field_entry_storage_entry[of f l s] by (simp add: e str_labels_def)
qed


definition slot_entry :: "string \<Rightarrow> json \<Rightarrow> json" where
  "slot_entry l v = JObj [(''label'', JStr l), (''slot'', v)]"

definition storage_layout :: "json list \<Rightarrow> (string \<times> json) list" where
  "storage_layout fs = [(''storageLayout'', JObj [(''storage'', JArr fs)])]"

lemma getitem_storage [simp]:
  "getitem (artifact abi ids (storage_layout fs)) ''storageLayout'' = Inr (JObj [(''storage'', JArr fs)])"
  "getitem (JObj [(''storage'', JArr fs)]) ''storage'' = Inr (JArr fs)"
  "getitem (slot_entry l v) ''label'' = Inr (JStr l)"
  "getitem (slot_entry l v) ''slot'' = Inr v"
  by (simp_all add: artifact_def storage_layout_def slot_entry_def getitem_JObj)

lemma contract_head_no_abi:
  "contract_head ''C'' (artifact [] [] extra) False = Inr (model_of (artifact [] [] extra) [])"
  using contract_head_artifact[of "[]" "[]" "[]" extra] by simp

lemma storage_example_fields:
  "storage_fields ''C'' (artifact [] [] (storage_layout
       [slot_entry ''x'' (JInt 0), slot_entry ''x'' (JInt 1)]))
     = Inr ([(KeyStr ''x'', 0)], [''Found duplicate field access key on contract C: x''])"
  "storage_fields ''C'' (artifact [] [] (storage_layout
       [slot_entry ''x'' (JStr ''5''), slot_entry ''y'' (JStr ''7''), slot_entry ''x'' (JStr ''9'')]))
     = Inr ([(KeyStr ''x'', 5), (KeyStr ''y'', 7)],
            [''Found duplicate field access key on contract C: x''])"
proof -
  have p: "py_int ''5'' = Inr 5" "py_int ''7'' = Inr 7" "py_int ''9'' = Inr 9"
    by (simp_all add: py_int_eval)
  have c: "py_contains ''storageLayout'' (artifact [] [] (storage_layout fs)) = Inr True"
    "py_contains ''storage'' (JObj [(''storage'', JArr fs)]) = Inr True" for fs
    by (simp_all add: getitem_contains[of _ _ "JObj [(''storage'', JArr fs)]"] py_contains_JObj)
  show "storage_fields ''C'' (artifact [] [] (storage_layout
       [slot_entry ''x'' (JInt 0), slot_entry ''x'' (JInt 1)]))
     = Inr ([(KeyStr ''x'', 0)], [''Found duplicate field access key on contract C: x''])"
    by (simp add: storage_fields_def and_then_def c py_iter_JArr field_entry_def slot_int_def
          as_key_def key_norm_def key_str_def duplicate_message_def)
  show "storage_fields ''C'' (artifact [] [] (storage_layout
       [slot_entry ''x'' (JStr ''5''), slot_entry ''y'' (JStr ''7''), slot_entry ''x'' (JStr ''9'')]))
     = Inr ([(KeyStr ''x'', 5), (KeyStr ''y'', 7)],
            [''Found duplicate field access key on contract C: x''])"
    by (simp add: storage_fields_def and_then_def c py_iter_JArr field_entry_def slot_int_def p
          as_key_def key_norm_def key_str_def duplicate_message_def)
qed


text \<open>
  Claim C8. For every artifact that \<^verbatim>\<open>Contract.__init__\<close> takes up to its storage
  layout, and whose storage layout is a list of entries with string labels and slots,
  whatever labels repeat: \<^verbatim>\<open>Contract.__init__\<close> returns, it does not raise; the
  field table of the object maps every label to the slot of its first entry; no label
  is a key twice; every entry is either a key of the table or a line of the log; and the
  log reports exactly the labels that occur more than once. The entries
  \<^verbatim>\<open>[{label: x, slot: 0}, {label: x, slot: 1}]\<close> give the table \<^verbatim>\<open>x -> 0\<close> and one line
  of log.
\<close>

theorem duplicate_label_first_wins:
  assumes "contract_head cname cjson foundry = Inr c0"
      and "getitem cjson ''storageLayout'' = Inr layout"
      and "getitem layout ''storage'' = Inr (JArr fs)"
      and "list_all2 storage_entry fs es"
  shows "\<exists>flds log.
           contract_init cname cjson foundry
             = Inr (c0\<lparr> c_fields := map (\<lambda>(l, s). (KeyStr l, s)) flds \<rparr>, log)
         \<and> map_of flds = map_of es
         \<and> distinct (map fst flds)
         \<and> length flds + length log = length es
         \<and> set log = duplicate_message cname ` {l. 1 < count_list (map fst es) l}"
proof -
  let ?flds = "first_wins {} es" and ?log = "map (duplicate_message cname) (later_duplicates {} es)"
  have fl: "fields_loop cname (str_labels es) ([], []) = Inr (str_keys ?flds, ?log)"
    using fields_loop_first_wins[of cname es "[]" "[]"] by (simp add: str_keys_def)
  have sf: "storage_fields cname cjson = Inr (str_keys ?flds, ?log)"
    unfolding storage_fields_def and_then_def getitem_contains[OF assms(2)] assms(2) sum.case
      getitem_contains[OF assms(3)] assms(3) py_iter_JArr field_entries[OF assms(4)]
    by (simp add: fl)
  have 1: "contract_init cname cjson foundry
             = Inr (c0\<lparr> c_fields := map (\<lambda>(l, s). (KeyStr l, s)) ?flds \<rparr>, ?log)"
    by (simp add: contract_init_def and_then_def assms(1) sf str_keys_def)
  have 2: "map_of ?flds = map_of es" by (rule ext) (simp add: map_of_first_wins)
  have 3: "length ?flds + length ?log = length es" using length_first_wins[of "{}" es] by simp
  have "\<And>l. 1 < count_list (map fst es) l \<Longrightarrow> l \<in> set (map fst es)"
    by (metis count_list_0_iff not_less_zero)
  then have 4: "set ?log = duplicate_message cname ` {l. 1 < count_list (map fst es) l}"
    unfolding set_map set_later_duplicates by auto
  show ?thesis using 1 2 3 4 distinct_first_wins[of "{}" es] by blast
qed


theorem duplicate_label_first_wins_witness:
  "contract_init ''C'' (artifact [] [] (storage_layout
       [slot_entry ''x'' (JInt 0), slot_entry ''x'' (JInt 1)])) False
     = Inr ((model_of (artifact [] [] (storage_layout
                [slot_entry ''x'' (JInt 0), slot_entry ''x'' (JInt 1)])) [])
              \<lparr> c_fields := [(KeyStr ''x'', 0)] \<rparr>,
            [''Found duplicate field access key on contract C: x''])
   \<and> (\<exists>flds log.
         contract_init ''C'' (artifact [] [] (storage_layout
             [slot_entry ''x'' (JStr ''5''), slot_entry ''y'' (JStr ''7''),
              slot_entry ''x'' (JStr ''9'')])) False
           = Inr ((model_of (artifact [] [] (storage_layout
                      [slot_entry ''x'' (JStr ''5''), slot_entry ''y'' (JStr ''7''),
                       slot_entry ''x'' (JStr ''9'')])) [])
                    \<lparr> c_fields := map (\<lambda>(l, s). (KeyStr l, s)) flds \<rparr>, log)
       \<and> map_of flds ''x'' = Some 5 \<and> map_of flds ''y'' = Some 7
       \<and> distinct (map fst flds) \<and> length flds + length log = 3)"
proof -
  have s: "str_int 5 = ''5''" "str_int 7 = ''7''" "str_int 9 = ''9''" by code_simp+
  have d: "list_all2 storage_entry
             [slot_entry ''x'' (JStr ''5''), slot_entry ''y'' (JStr ''7''), slot_entry ''x'' (JStr ''9'')]
             [(''x'', 5), (''y'', 7), (''x'', 9)]"
    by (simp add: storage_entry_def s)
  have 1: "contract_init ''C'' (artifact [] [] (storage_layout
       [slot_entry ''x'' (JInt 0), slot_entry ''x'' (JInt 1)])) False
     = Inr ((model_of (artifact [] [] (storage_layout
                [slot_entry ''x'' (JInt 0), slot_entry ''x'' (JInt 1)])) [])
              \<lparr> c_fields := [(KeyStr ''x'', 0)] \<rparr>,
            [''Found duplicate field access key on contract C: x''])"
    by (simp add: contract_init_def and_then_def contract_head_no_abi storage_example_fields(1))
  from duplicate_label_first_wins[OF contract_head_no_abi getitem_storage(1) getitem_storage(2) d]
  obtain flds log where f:
    "contract_init ''C'' (artifact [] [] (storage_layout
             [slot_entry ''x'' (JStr ''5''), slot_entry ''y'' (JStr ''7''),
              slot_entry ''x'' (JStr ''9'')])) False
           = Inr ((model_of (artifact [] [] (storage_layout
                      [slot_entry ''x'' (JStr ''5''), slot_entry ''y'' (JStr ''7''),
                       slot_entry ''x'' (JStr ''9'')])) [])
                    \<lparr> c_fields := map (\<lambda>(l, s). (KeyStr l, s)) flds \<rparr>, log)"
    "map_of flds = map_of [(''x'', 5), (''y'', 7), (''x'', 9)]"
    "distinct (map fst flds)" "length flds + length log = length [(''x'', 5::int), (''y'', 7), (''x'', 9)]"
    by blast
  have "map_of flds ''x'' = Some 5" "map_of flds ''y'' = Some 7" using f(2) by simp_all
  with 1 f(1,3,4) show ?thesis by auto
qed

section \<open>What the classifier raises, and when productions and rules are made\<close>






























section \<open>The signature of a tuple argument\<close>

text \<open>
  A tuple with no array suffix, with the suffix \<^verbatim>\<open>[]\<close> or with one suffix \<^verbatim>\<open>[N]\<close> is
  written as its components between parentheses, separated by commas, in their order,
  and then the suffix. A type that is not a tuple is returned as it stands, whatever
  its array suffix.
\<close>

lemma split_aux_no_sep:
  "sep \<notin> set s \<Longrightarrow> split_aux sep (s @ t) = (s @ fst (split_aux sep t), snd (split_aux sep t))"
  by (induction s) (auto split: prod.splits)

lemma is_dec_neq: "is_dec c \<Longrightarrow> (of_char x :: nat) < 48 \<or> 57 < (of_char x :: nat) \<Longrightarrow> c \<noteq> x"
  by (auto simp: is_dec_def dest: digit_char_neq)

lemma str_nat_no_char:
  "(of_char x :: nat) < 48 \<or> 57 < (of_char x :: nat) \<Longrightarrow> x \<notin> set (str_nat n)"
  using str_nat_dec[of n] is_dec_neq by blast

lemma array_suffix_plain: "array_suffix ''tuple'' = Inr (False, False, 0, ''tuple'')"
  by (simp add: array_suffix_def re_match_array_def)

lemma array_suffix_dynamic: "array_suffix ''tuple[]'' = Inr (True, False, 0, ''tuple'')"
  by (simp add: array_suffix_def re_match_array_def split_def)

lemma array_suffix_sized:
  "array_suffix (''tuple['' @ str_nat n @ '']'') = Inr (True, True, int n, ''tuple'')"
proof -
  have nl: "CHR 0x0A \<notin> set (str_nat n)" by (rule str_nat_no_char) simp
  have br: "CHR ''['' \<notin> set (str_nat n)" by (rule str_nat_no_char) simp
  have tw: "takeWhile (\<lambda>c. c \<noteq> CHR 0x0A) (str_nat n @ '']'') = str_nat n @ '']''"
    using nl by (auto simp: takeWhile_eq_all_conv)
  have m: "re_match_array (''tuple['' @ str_nat n @ '']'')"
    by (simp add: re_match_array_def tw)
  have sp: "split_aux CHR ''['' (str_nat n @ '']'') = (str_nat n @ '']'', [])"
    using split_aux_no_sep[OF br, of "'']''"] by simp
  have s: "split CHR ''['' (''tuple['' @ str_nat n @ '']'') = [''tuple'', str_nat n @ '']'']"
    by (simp add: split_def sp)
  show ?thesis
    unfolding array_suffix_def s using m by (simp add: py_int_str_nat str_nat_nonempty butlast_append)
qed

lemma sequence_map_Inr: "sequence (map Inr xs) = Inr xs"
  by (induction xs) simp_all

lemma unparse_tuple:
  assumes "getitem input_json ''type'' = Inr (JStr t)"
      and "array_suffix t = Inr (is_array, is_sized, array_size, ''tuple'')"
      and "getitem input_json ''components'' = Inr comps"
      and "py_iter comps = Inr cs"
      and "sequence (map unparse_input cs) = Inr parts"
  shows "unparse_input input_json
           = Inr (''('' @ join '','' parts @ '')''
                  @ (if is_array \<and> \<not> is_sized then ''[]''
                     else if is_array \<and> is_sized then ''['' @ str_int array_size @ '']''
                     else []))"
  by (subst unparse_input.simps) (simp add: assms as_str_def)

lemma tuple_signature:
  assumes "getitem input_json ''type'' = Inr (JStr (''tuple'' @ sfx))"
      and "getitem input_json ''components'' = Inr (JArr cs)"
      and "sfx = [] \<or> sfx = ''[]'' \<or> (\<exists>n. sfx = ''['' @ str_nat n @ '']'')"
      and "map unparse_input cs = map Inr parts"
  shows "unparse_input input_json = Inr (''('' @ join '','' parts @ '')'' @ sfx)"
proof -
  have it: "py_iter (JArr cs) = Inr cs" by (simp add: py_iter_def)
  have sq: "sequence (map unparse_input cs) = Inr parts"
    by (simp add: assms(4) sequence_map_Inr)
  from assms(3) consider "sfx = []" | "sfx = ''[]''" | n where "sfx = ''['' @ str_nat n @ '']''"
    by blast
  then show ?thesis
  proof cases
    case 1
    have a: "array_suffix (''tuple'' @ sfx) = Inr (False, False, 0, ''tuple'')"
      using array_suffix_plain by (simp add: 1)
    show ?thesis
      using unparse_tuple[OF assms(1) a assms(2) it sq] by (simp add: 1)
  next
    case 2
    have a: "array_suffix (''tuple'' @ sfx) = Inr (True, False, 0, ''tuple'')"
      using array_suffix_dynamic by (simp add: 2)
    show ?thesis
      using unparse_tuple[OF assms(1) a assms(2) it sq] by (simp add: 2)
  next
    case 3
    have a: "array_suffix (''tuple'' @ sfx) = Inr (True, True, int n, ''tuple'')"
      using array_suffix_sized[of n] by (simp add: 3)
    show ?thesis
      using unparse_tuple[OF assms(1) a assms(2) it sq] by (simp add: 3 str_int_def)
  qed
qed

lemma unparse_scalar:
  assumes "getitem input_json ''type'' = Inr (JStr t)"
      and "array_suffix t = Inr (is_array, is_sized, array_size, base_type)"
      and "base_type \<noteq> ''tuple''"
  shows "unparse_input input_json = Inr t"
  by (subst unparse_input.simps) (simp add: assms as_str_def)

lemma unparse_uint256: "unparse_input (abi_input nm ''uint256'') = Inr ''uint256''"
  by (rule unparse_scalar[where is_array = False and is_sized = False and array_size = 0 and base_type = "''uint256''"])
     (simp_all add: array_suffix_def re_match_array_def)

lemma unparse_address: "unparse_input (abi_input nm ''address'') = Inr ''address''"
  by (rule unparse_scalar[where is_array = False and is_sized = False and array_size = 0 and base_type = "''address''"])
     (simp_all add: array_suffix_def re_match_array_def)

lemma tuple_examples:
  "unparse_input (abi_tuple ''p'' ''tuple'' [abi_input ''a'' ''uint256'', abi_input ''b'' ''address''])
     = Inr ''(uint256,address)''
   \<and> unparse_input (abi_tuple ''p'' ''tuple[]'' [abi_input ''a'' ''uint256'', abi_input ''b'' ''address''])
     = Inr ''(uint256,address)[]''"
  using tuple_signature[of "abi_tuple ''p'' ''tuple'' [abi_input ''a'' ''uint256'', abi_input ''b'' ''address'']"
          "[]" "[abi_input ''a'' ''uint256'', abi_input ''b'' ''address'']" "[''uint256'', ''address'']"]
        tuple_signature[of "abi_tuple ''p'' ''tuple[]'' [abi_input ''a'' ''uint256'', abi_input ''b'' ''address'']"
          "''[]''" "[abi_input ''a'' ''uint256'', abi_input ''b'' ''address'']" "[''uint256'', ''address'']"]
  by (simp add: unparse_uint256 unparse_address)

lemma array_suffix_2d: "array_suffix ''tuple[2][3]'' = Inr (True, True, 2, ''tuple'')"
  by code_simp

lemma array_suffix_scalar_2d: "array_suffix ''uint256[2][3]'' = Inr (True, True, 2, ''uint256'')"
  by code_simp

lemma unparse_tuple_2d:
  "unparse_input (abi_tuple ''p'' ''tuple[2][3]'' [abi_input ''a'' ''uint256'', abi_input ''b'' ''address''])
     = Inr ''(uint256,address)[2]''
   \<and> unparse_input (abi_input ''q'' ''uint256[2][3]'') = Inr ''uint256[2][3]''"
proof -
  have s2: "str_int 2 = ''2''" by code_simp
  have 1: "unparse_input (abi_tuple ''p'' ''tuple[2][3]'' [abi_input ''a'' ''uint256'', abi_input ''b'' ''address''])
     = Inr ''(uint256,address)[2]''"
    using unparse_tuple[of "abi_tuple ''p'' ''tuple[2][3]'' [abi_input ''a'' ''uint256'', abi_input ''b'' ''address'']"
        "''tuple[2][3]''" True True 2 "JArr [abi_input ''a'' ''uint256'', abi_input ''b'' ''address'']"
        "[abi_input ''a'' ''uint256'', abi_input ''b'' ''address'']" "[''uint256'', ''address'']"]
    by (simp add: array_suffix_2d py_iter_def unparse_uint256 unparse_address s2)
  have 2: "unparse_input (abi_input ''q'' ''uint256[2][3]'') = Inr ''uint256[2][3]''"
    by (rule unparse_scalar[OF _ array_suffix_scalar_2d]) simp_all
  show ?thesis using 1 2 by simp
qed


lemma method_sig_tuple_2d:
  "method_sig_from_abi (abi_function ''f''
       [abi_tuple ''p'' ''tuple[2][3]'' [abi_input ''a'' ''uint256'', abi_input ''b'' ''address'']]
       ''nonpayable'')
     = Inr ''f((uint256,address)[2])''"
  using unparse_tuple_2d
  by (simp add: method_sig_from_abi_def and_then_def py_iter_JArr as_str_def)








definition nested_array_artifact :: json where
  "nested_array_artifact =
     artifact [abi_function ''f''
                 [abi_tuple ''p'' ''tuple[2][3]'' [abi_input ''a'' ''uint256'', abi_input ''b'' ''address'']]
                 ''nonpayable'']
              [(''f((uint256,address)[2][3])'', JStr ''deadbeef'')] []"


text \<open>
  Claim C4 has a tuple written as its components in parentheses with any array suffix
  after the closing parenthesis. For a tuple with one suffix this is so (lemmas
  \<open>tuple_signature\<close> and \<open>tuple_examples\<close> above). For an array of arrays,
  \<^verbatim>\<open>tuple[2][3]\<close> with the components \<^verbatim>\<open>uint256\<close> and \<^verbatim>\<open>address\<close>, the function reads
  the first pair of brackets only and returns \<^verbatim>\<open>(uint256,address)[2]\<close>, where the suffix
  is \<^verbatim>\<open>[2][3]\<close>; the branch for types that are not tuples returns \<^verbatim>\<open>uint256[2][3]\<close>
  whole. The signature of the method is then \<^verbatim>\<open>f((uint256,address)[2])\<close>, which is not
  the key \<^verbatim>\<open>f((uint256,address)[2][3])\<close> of the table of method identifiers, and
  \<^verbatim>\<open>Contract.__init__\<close> raises \<^verbatim>\<open>KeyError\<close>.
\<close>

theorem tuple_array_keeps_first_dimension_only:
  "unparse_input (abi_tuple ''p'' ''tuple[2][3]'' [abi_input ''a'' ''uint256'', abi_input ''b'' ''address''])
     = Inr ''(uint256,address)[2]''
   \<and> unparse_input (abi_input ''q'' ''uint256[2][3]'') = Inr ''uint256[2][3]''
   \<and> method_sig_from_abi (abi_function ''f''
         [abi_tuple ''p'' ''tuple[2][3]'' [abi_input ''a'' ''uint256'', abi_input ''b'' ''address'']]
         ''nonpayable'')
       = Inr ''f((uint256,address)[2])''
   \<and> contract_init ''C'' nested_array_artifact False = Inl (KeyError ''f((uint256,address)[2])'')"
proof -
  have e: "abi_entry ''C'' (evm_of [(''f((uint256,address)[2][3])'', JStr ''deadbeef'')])
             (abi_function ''f''
                 [abi_tuple ''p'' ''tuple[2][3]'' [abi_input ''a'' ''uint256'', abi_input ''b'' ''address'']]
                 ''nonpayable'') = Inl (KeyError ''f((uint256,address)[2])'')"
    unfolding abi_entry_def and_then_def getitem_fixtures sum.case method_sig_tuple_2d
    by (simp add: getitem_JObj)
  have g: "getitem nested_array_artifact ''id'' = Inr (JInt 0)"
    "getitem nested_array_artifact ''ast'' = Inr (JObj [(''absolutePath'', JStr ''C.sol'')])"
    "getitem nested_array_artifact ''abi'' = Inr (JArr [abi_function ''f''
                 [abi_tuple ''p'' ''tuple[2][3]'' [abi_input ''a'' ''uint256'', abi_input ''b'' ''address'']]
                 ''nonpayable''])"
    "getitem nested_array_artifact ''evm'' = Inr (evm_of [(''f((uint256,address)[2][3])'', JStr ''deadbeef'')])"
    by (simp_all add: nested_array_artifact_def artifact_def getitem_JObj)
  have d: "getitem (evm_of ids) ''deployedBytecode'' = Inr (JObj [(''object'', JStr ''0x00'')])" for ids
    by (simp add: evm_of_def getitem_JObj)
  have h: "contract_head ''C'' nested_array_artifact False = Inl (KeyError ''f((uint256,address)[2])'')"
    unfolding contract_head_def g and_then_def sum.case
    by (simp add: d getitem_JObj as_str_def py_contains_JObj py_iter_JArr e)
  have "contract_init ''C'' nested_array_artifact False = Inl (KeyError ''f((uint256,address)[2])'')"
    by (simp add: contract_init_def and_then_def h)
  then show ?thesis
    using unparse_tuple_2d method_sig_tuple_2d by simp
qed

section \<open>A method with an argument that has no range predicate\<close>













section \<open>A method with an argument of type \<^verbatim>\<open>uint9\<close>\<close>









end
